(* ===== verification/Prelude.thy ===== *)
theory Prelude
  imports Main "HOL-Library.Word" "HOL-Library.AList" "HOL-Library.Multiset"
begin

text \<open>
  Shared material of the development: names for the machine types of the code, the collections of
  simplification rules the components use, and generic lemmas on association lists (the model of
  \<^verbatim>\<open>std::unordered_map\<close>), on lists updated in place and on counting.

  An \<^verbatim>\<open>unordered_map\<close> is an association list with distinct keys. The list fixes one iteration
  order where C++ leaves it open; no property of the development depends on which order it is.
\<close>

section \<open>Machine types\<close>

type_synonym u32 = "32 word"
type_synonym u64 = "64 word"

type_synonym TransactionID = u64
type_synonym ColumnFamilyId = u32
type_synonym SequenceNumber = u64
type_synonym TxnTimestamp = u64

section \<open>Outcomes\<close>

text \<open>
  A call returns, is still waiting when the events it was given are used up, or runs into undefined
  behaviour (an iterator past the end, a null pointer).
\<close>

datatype 'a outcome = Returned 'a | Still_waiting | Undefined

fun bind_outcome :: "'a outcome \<Rightarrow> ('a \<Rightarrow> 'b outcome) \<Rightarrow> 'b outcome" where
  "bind_outcome (Returned x) f = f x"
| "bind_outcome Still_waiting f = Still_waiting"
| "bind_outcome Undefined f = Undefined"

definition defined_or :: "'a option \<Rightarrow> 'a outcome" where
  "defined_or x = (case x of None \<Rightarrow> Undefined | Some y \<Rightarrow> Returned y)"

lemma defined_or_simps [simp]: "defined_or None = Undefined" "defined_or (Some y) = Returned y"
  by (simp_all add: defined_or_def)

text \<open>Computable tests of a result, for evaluating concrete runs.\<close>

definition returns :: "'a outcome \<Rightarrow> ('a \<Rightarrow> bool) \<Rightarrow> bool" where
  "returns x P = (case x of Returned y \<Rightarrow> P y | _ \<Rightarrow> False)"

definition some_is :: "'a option \<Rightarrow> ('a \<Rightarrow> bool) \<Rightarrow> bool" where
  "some_is x P = (case x of Some y \<Rightarrow> P y | None \<Rightarrow> False)"

lemma returns_iff: "returns x P \<longleftrightarrow> (\<exists>y. x = Returned y \<and> P y)"
  by (simp add: returns_def split: outcome.split)

lemma some_is_iff: "some_is x P \<longleftrightarrow> (\<exists>y. x = Some y \<and> P y)"
  by (simp add: some_is_def split: option.split)

lemma bind_outcome_Returned: "bind_outcome m f = Returned y \<longleftrightarrow> (\<exists>x. m = Returned x \<and> f x = Returned y)"
  by (cases m) auto

lemma defined_or_Returned [simp]: "defined_or x = Returned y \<longleftrightarrow> x = Some y"
  by (cases x) auto

section \<open>Rule collections\<close>

named_theorems status_simps \<open>evaluation of status constructors and predicates\<close>
named_theorems lock_defs \<open>definitions of the lock manager operations\<close>
named_theorems tracker_defs \<open>definitions of the lock tracker operations\<close>
named_theorems txn_defs \<open>definitions of the transaction operations\<close>

section \<open>Association lists with distinct keys\<close>

abbreviation alist_ok :: "('k \<times> 'v) list \<Rightarrow> bool" where
  "alist_ok xs \<equiv> distinct (map fst xs)"

lemma alist_ok_update [simp]: "alist_ok xs \<Longrightarrow> alist_ok (AList.update k v xs)"
  by (rule distinct_update)

lemma alist_ok_delete [simp]: "alist_ok xs \<Longrightarrow> alist_ok (AList.delete k xs)"
  by (rule distinct_delete)

lemma alist_update_set:
  "alist_ok xs \<Longrightarrow> set (AList.update k v xs) = insert (k, v) {p \<in> set xs. fst p \<noteq> k}"
  by (induction xs) (force simp: image_iff)+

lemma alist_delete_set: "set (AList.delete k xs) = {p \<in> set xs. fst p \<noteq> k}"
  by (auto simp: AList.delete_eq)

lemma map_of_update_iff [simp]:
  "map_of (AList.update k v xs) k' = (if k' = k then Some v else map_of xs k')"
  by (simp add: update_conv')

lemma map_of_delete_iff [simp]:
  "map_of (AList.delete k xs) k' = (if k' = k then None else map_of xs k')"
  by (simp add: delete_conv')

lemma length_update_new: "map_of xs k = None \<Longrightarrow> length (AList.update k v xs) = Suc (length xs)"
  by (induction xs) (auto split: if_splits)

lemma length_update_old: "map_of xs k \<noteq> None \<Longrightarrow> length (AList.update k v xs) = length xs"
  by (induction xs) (auto split: if_splits)

lemma length_delete_old:
  "alist_ok xs \<Longrightarrow> map_of xs k \<noteq> None \<Longrightarrow> Suc (length (AList.delete k xs)) = length xs"
proof (induction xs)
  case (Cons p xs)
  show ?case
  proof (cases "fst p = k")
    case True
    with Cons.prems have "map_of xs k = None"
      by (auto simp: map_of_eq_None_iff)
    then have "AList.delete k xs = xs"
      by (simp add: delete_idem map_of_eq_None_iff)
    with True show ?thesis by (cases p) simp
  next
    case False
    with Cons show ?thesis by (cases p) auto
  qed
qed simp

lemma alist_fst_in: "map_of xs k = Some v \<Longrightarrow> k \<in> set (map fst xs)"
  by (force dest: map_of_SomeD)

section \<open>Removing by swapping with the last element\<close>

text \<open>
  Several containers of the code remove an element by copying the last one over it and popping the
  last (\<^verbatim>\<open>*it = *last; v.pop_back()\<close>). The result is a permutation of the list without the first
  occurrence of the element.
\<close>

definition swap_remove_at :: "nat \<Rightarrow> 'a list \<Rightarrow> 'a list" where
  "swap_remove_at i xs =
     (let last_i = length xs - 1
      in butlast (if i \<noteq> last_i then xs[i := xs ! last_i] else xs))"

fun find_index :: "('a \<Rightarrow> bool) \<Rightarrow> 'a list \<Rightarrow> nat option" where
  "find_index P [] = None"
| "find_index P (x # xs) = (if P x then Some 0 else map_option Suc (find_index P xs))"

lemma find_index_Some:
  "find_index P xs = Some i \<Longrightarrow> i < length xs \<and> P (xs ! i) \<and> (\<forall>j<i. \<not> P (xs ! j))"
proof (induction xs arbitrary: i)
  case (Cons x xs)
  show ?case
  proof (cases "P x")
    case False
    with Cons.prems obtain k where "find_index P xs = Some k" "i = Suc k" by auto
    with Cons.IH [of k] False show ?thesis by (auto simp: less_Suc_eq_0_disj)
  qed (use Cons.prems in auto)
qed simp

lemma find_index_None: "find_index P xs = None \<longleftrightarrow> (\<forall>x\<in>set xs. \<not> P x)"
  by (induction xs) auto

lemma find_index_map_of:
  "map_option (\<lambda>i. snd (xs ! i)) (find_index (\<lambda>p. fst p = k) xs) = map_of xs k"
  by (induction xs) (auto simp: option.map_comp comp_def)

lemma find_index_update:
  "find_index (\<lambda>p. fst p = k) xs = Some i \<Longrightarrow> xs[i := (k, v)] = AList.update k v xs"
  by (induction xs arbitrary: i) (auto split: if_splits nat.splits)

lemma mset_swap_remove_at:
  assumes "i < length xs"
  shows "mset (swap_remove_at i xs) = mset xs - {#xs ! i#}"
proof -
  obtain ys z where xs: "xs = ys @ [z]"
    using assms by (cases xs rule: rev_cases) auto
  show ?thesis
  proof (cases "i < length ys")
    case True
    then have "swap_remove_at i xs = ys[i := z]"
      by (simp add: swap_remove_at_def xs list_update_append nth_append)
    with True show ?thesis by (simp add: xs nth_append mset_update)
  next
    case False
    with assms have "i = length ys" by (simp add: xs)
    then show ?thesis by (simp add: swap_remove_at_def xs)
  qed
qed

lemma length_swap_remove_at: "length (swap_remove_at i xs) = length xs - 1"
  by (simp add: swap_remove_at_def Let_def)

lemma alist_ok_mset: "alist_ok xs \<longleftrightarrow> distinct (map fst ys)" if "mset xs = mset ys"
  using that by (metis mset_map mset_eq_imp_distinct_iff)

lemma map_of_mset: "alist_ok xs \<Longrightarrow> mset xs = mset ys \<Longrightarrow> map_of xs = map_of ys"
  by (metis alist_ok_mset map_of_inject_set mset_eq_setD)

lemma mset_delete_at:
  "alist_ok xs \<Longrightarrow> find_index (\<lambda>p. fst p = k) xs = Some i \<Longrightarrow>
    mset xs - {#xs ! i#} = mset (AList.delete k xs)"
proof (induction xs arbitrary: i)
  case (Cons p xs)
  show ?case
  proof (cases "fst p = k")
    case True
    with Cons.prems have "AList.delete k xs = xs" by (auto intro!: delete_idem)
    with True Cons.prems show ?thesis by (cases p) simp
  next
    case False
    with Cons.prems obtain j where j: "find_index (\<lambda>p. fst p = k) xs = Some j" "i = Suc j" by auto
    then have "xs ! j \<in># mset xs" using find_index_Some [OF j(1)] by simp
    with False Cons j show ?thesis by (cases p) simp
  qed
qed simp

lemma swap_remove_alist:
  assumes "alist_ok xs" "find_index (\<lambda>p. fst p = k) xs = Some i"
  shows "map_of (swap_remove_at i xs) = (map_of xs)(k := None)"
    and "alist_ok (swap_remove_at i xs)"
    and "set (swap_remove_at i xs) = {p \<in> set xs. fst p \<noteq> k}"
proof -
  have m: "mset (swap_remove_at i xs) = mset (AList.delete k xs)"
    using assms find_index_Some [OF assms(2)]
    by (simp add: mset_swap_remove_at mset_delete_at)
  show ok: "alist_ok (swap_remove_at i xs)"
    using alist_ok_mset [OF m] assms(1) by simp
  show "map_of (swap_remove_at i xs) = (map_of xs)(k := None)"
    using map_of_mset [OF ok m] by (simp add: fun_eq_iff)
  show "set (swap_remove_at i xs) = {p \<in> set xs. fst p \<noteq> k}"
    using m by (metis alist_delete_set set_mset_mset)
qed

section \<open>Decimal numbers\<close>

text \<open>The decimal notation \<^verbatim>\<open>printf\<close> gives for an unsigned number.\<close>

fun decimal :: "nat \<Rightarrow> string" where
  "decimal n =
     (if n < 10 then [char_of (48 + n)] else decimal (n div 10) @ [char_of (48 + n mod 10)])"

declare decimal.simps [simp del]

end
