(* ===== verification/Status.thy ===== *)
theory Status
  imports Prelude
begin

text \<open>
  \<^verbatim>\<open>include/rocksdb/status.h\<close> and \<^verbatim>\<open>util/status.cc\<close>: the result value of every operation of the
  library. A status is a code, a subcode, a severity, three flags and an optional message; the
  constructors and predicates below are the static members of \<^verbatim>\<open>class Status\<close>, one definition each.
  Constructors that take a message end in \<open>_msg\<close>. The optional second message of a constructor is
  always present in the code and empty by default, so it is an argument.
\<close>

section \<open>Data\<close>

datatype Code =
    kOk | kNotFound | kCorruption | kNotSupported | kInvalidArgument | kIOError
  | kMergeInProgress | kIncomplete | kShutdownInProgress | kTimedOut | kAborted | kBusy
  | kExpired | kTryAgain | kCompactionTooLarge | kColumnFamilyDropped | kMaxCode

datatype SubCode =
    kNone | kMutexTimeout | kLockTimeout | kLockLimit | kNoSpace | kDeadlock | kStaleFile
  | kMemoryLimit | kSpaceLimit | kPathNotFound | KMergeOperandsInsufficientCapacity
  | kManualCompactionPaused | kOverwritten | kTxnNotPrepared | kIOFenced | kMaxSubCode

datatype Severity =
    kNoError | kSoftError | kHardError | kFatalError | kUnrecoverableError | kMaxSeverity

record Status =
  code :: Code
  subcode :: SubCode
  severity :: Severity
  retryable :: bool
  data_loss :: bool
  scope :: "8 word"
  state :: "string option"

section \<open>Constructors\<close>

text \<open>The protected constructors: without a message, and with one or two message parts.\<close>

definition Status_code :: "Code \<Rightarrow> SubCode \<Rightarrow> Status" where
  "Status_code c sc =
     \<lparr>code = c, subcode = sc, severity = kNoError, retryable = False, data_loss = False,
      scope = 0, state = None\<rparr>"

definition Status_msg :: "Code \<Rightarrow> SubCode \<Rightarrow> string \<Rightarrow> string \<Rightarrow> Severity \<Rightarrow> Status" where
  "Status_msg c sc msg msg2 sev =
     \<lparr>code = c, subcode = sc, severity = sev, retryable = False, data_loss = False, scope = 0,
      state = Some (msg @ (if msg2 \<noteq> [] then '': '' @ msg2 else []))\<rparr>"

definition Status_with_severity :: "Status \<Rightarrow> Severity \<Rightarrow> Status" where
  "Status_with_severity s sev = s\<lparr>severity := sev\<rparr>"

definition OK :: Status where
  "OK = \<lparr>code = kOk, subcode = kNone, severity = kNoError, retryable = False, data_loss = False,
         scope = 0, state = None\<rparr>"

definition OkOverwritten :: Status where
  "OkOverwritten = Status_code kOk kOverwritten"

definition NotFound :: "SubCode \<Rightarrow> Status" where
  "NotFound sc = Status_code kNotFound sc"

definition NotFound_msg :: "string \<Rightarrow> string \<Rightarrow> Status" where
  "NotFound_msg msg msg2 = Status_msg kNotFound kNone msg msg2 kNoError"

definition NotFound_sub_msg :: "SubCode \<Rightarrow> string \<Rightarrow> string \<Rightarrow> Status" where
  "NotFound_sub_msg sc msg msg2 = Status_msg kNotFound sc msg msg2 kNoError"

definition Corruption :: "SubCode \<Rightarrow> Status" where
  "Corruption sc = Status_code kCorruption sc"

definition Corruption_msg :: "string \<Rightarrow> string \<Rightarrow> Status" where
  "Corruption_msg msg msg2 = Status_msg kCorruption kNone msg msg2 kNoError"

definition NotSupported :: "SubCode \<Rightarrow> Status" where
  "NotSupported sc = Status_code kNotSupported sc"

definition NotSupported_msg :: "string \<Rightarrow> string \<Rightarrow> Status" where
  "NotSupported_msg msg msg2 = Status_msg kNotSupported kNone msg msg2 kNoError"

definition InvalidArgument :: "SubCode \<Rightarrow> Status" where
  "InvalidArgument sc = Status_code kInvalidArgument sc"

definition InvalidArgument_msg :: "string \<Rightarrow> string \<Rightarrow> Status" where
  "InvalidArgument_msg msg msg2 = Status_msg kInvalidArgument kNone msg msg2 kNoError"

definition IOError :: "SubCode \<Rightarrow> Status" where
  "IOError sc = Status_code kIOError sc"

definition IOError_msg :: "string \<Rightarrow> string \<Rightarrow> Status" where
  "IOError_msg msg msg2 = Status_msg kIOError kNone msg msg2 kNoError"

definition MergeInProgress :: "SubCode \<Rightarrow> Status" where
  "MergeInProgress sc = Status_code kMergeInProgress sc"

definition MergeInProgress_msg :: "string \<Rightarrow> string \<Rightarrow> Status" where
  "MergeInProgress_msg msg msg2 = Status_msg kMergeInProgress kNone msg msg2 kNoError"

definition Incomplete :: "SubCode \<Rightarrow> Status" where
  "Incomplete sc = Status_code kIncomplete sc"

definition Incomplete_msg :: "string \<Rightarrow> string \<Rightarrow> Status" where
  "Incomplete_msg msg msg2 = Status_msg kIncomplete kNone msg msg2 kNoError"

definition ShutdownInProgress :: "SubCode \<Rightarrow> Status" where
  "ShutdownInProgress sc = Status_code kShutdownInProgress sc"

definition ShutdownInProgress_msg :: "string \<Rightarrow> string \<Rightarrow> Status" where
  "ShutdownInProgress_msg msg msg2 = Status_msg kShutdownInProgress kNone msg msg2 kNoError"

definition Aborted :: "SubCode \<Rightarrow> Status" where
  "Aborted sc = Status_code kAborted sc"

definition Aborted_msg :: "string \<Rightarrow> string \<Rightarrow> Status" where
  "Aborted_msg msg msg2 = Status_msg kAborted kNone msg msg2 kNoError"

definition Busy :: "SubCode \<Rightarrow> Status" where
  "Busy sc = Status_code kBusy sc"

definition Busy_msg :: "string \<Rightarrow> string \<Rightarrow> Status" where
  "Busy_msg msg msg2 = Status_msg kBusy kNone msg msg2 kNoError"

definition TimedOut :: "SubCode \<Rightarrow> Status" where
  "TimedOut sc = Status_code kTimedOut sc"

definition TimedOut_msg :: "string \<Rightarrow> string \<Rightarrow> Status" where
  "TimedOut_msg msg msg2 = Status_msg kTimedOut kNone msg msg2 kNoError"

definition Expired :: "SubCode \<Rightarrow> Status" where
  "Expired sc = Status_code kExpired sc"

definition Expired_msg :: "string \<Rightarrow> string \<Rightarrow> Status" where
  "Expired_msg msg msg2 = Status_msg kExpired kNone msg msg2 kNoError"

definition TryAgain :: "SubCode \<Rightarrow> Status" where
  "TryAgain sc = Status_code kTryAgain sc"

definition TryAgain_msg :: "string \<Rightarrow> string \<Rightarrow> Status" where
  "TryAgain_msg msg msg2 = Status_msg kTryAgain kNone msg msg2 kNoError"

definition CompactionTooLarge :: "SubCode \<Rightarrow> Status" where
  "CompactionTooLarge sc = Status_code kCompactionTooLarge sc"

definition CompactionTooLarge_msg :: "string \<Rightarrow> string \<Rightarrow> Status" where
  "CompactionTooLarge_msg msg msg2 = Status_msg kCompactionTooLarge kNone msg msg2 kNoError"

definition ColumnFamilyDropped :: "SubCode \<Rightarrow> Status" where
  "ColumnFamilyDropped sc = Status_code kColumnFamilyDropped sc"

definition ColumnFamilyDropped_msg :: "string \<Rightarrow> string \<Rightarrow> Status" where
  "ColumnFamilyDropped_msg msg msg2 = Status_msg kColumnFamilyDropped kNone msg msg2 kNoError"

definition NoSpace :: Status where
  "NoSpace = Status_code kIOError kNoSpace"

definition NoSpace_msg :: "string \<Rightarrow> string \<Rightarrow> Status" where
  "NoSpace_msg msg msg2 = Status_msg kIOError kNoSpace msg msg2 kNoError"

definition MemoryLimit :: Status where
  "MemoryLimit = Status_code kAborted kMemoryLimit"

definition MemoryLimit_msg :: "string \<Rightarrow> string \<Rightarrow> Status" where
  "MemoryLimit_msg msg msg2 = Status_msg kAborted kMemoryLimit msg msg2 kNoError"

definition SpaceLimit :: Status where
  "SpaceLimit = Status_code kIOError kSpaceLimit"

definition SpaceLimit_msg :: "string \<Rightarrow> string \<Rightarrow> Status" where
  "SpaceLimit_msg msg msg2 = Status_msg kIOError kSpaceLimit msg msg2 kNoError"

definition PathNotFound :: Status where
  "PathNotFound = Status_code kIOError kPathNotFound"

definition PathNotFound_msg :: "string \<Rightarrow> string \<Rightarrow> Status" where
  "PathNotFound_msg msg msg2 = Status_msg kIOError kPathNotFound msg msg2 kNoError"

definition TxnNotPrepared :: Status where
  "TxnNotPrepared = Status_code kInvalidArgument kTxnNotPrepared"

definition TxnNotPrepared_msg :: "string \<Rightarrow> string \<Rightarrow> Status" where
  "TxnNotPrepared_msg msg msg2 = Status_msg kInvalidArgument kTxnNotPrepared msg msg2 kNoError"

section \<open>Predicates\<close>

definition ok :: "Status \<Rightarrow> bool" where
  "ok s \<longleftrightarrow> code s = kOk"

definition IsOkOverwritten :: "Status \<Rightarrow> bool" where
  "IsOkOverwritten s \<longleftrightarrow> code s = kOk \<and> subcode s = kOverwritten"

definition IsNotFound :: "Status \<Rightarrow> bool" where
  "IsNotFound s \<longleftrightarrow> code s = kNotFound"

definition IsCorruption :: "Status \<Rightarrow> bool" where
  "IsCorruption s \<longleftrightarrow> code s = kCorruption"

definition IsNotSupported :: "Status \<Rightarrow> bool" where
  "IsNotSupported s \<longleftrightarrow> code s = kNotSupported"

definition IsInvalidArgument :: "Status \<Rightarrow> bool" where
  "IsInvalidArgument s \<longleftrightarrow> code s = kInvalidArgument"

definition IsIOError :: "Status \<Rightarrow> bool" where
  "IsIOError s \<longleftrightarrow> code s = kIOError"

definition IsMergeInProgress :: "Status \<Rightarrow> bool" where
  "IsMergeInProgress s \<longleftrightarrow> code s = kMergeInProgress"

definition IsIncomplete :: "Status \<Rightarrow> bool" where
  "IsIncomplete s \<longleftrightarrow> code s = kIncomplete"

definition IsShutdownInProgress :: "Status \<Rightarrow> bool" where
  "IsShutdownInProgress s \<longleftrightarrow> code s = kShutdownInProgress"

definition IsAborted :: "Status \<Rightarrow> bool" where
  "IsAborted s \<longleftrightarrow> code s = kAborted"

definition IsLockLimit :: "Status \<Rightarrow> bool" where
  "IsLockLimit s \<longleftrightarrow> code s = kAborted \<and> subcode s = kLockLimit"

definition IsBusy :: "Status \<Rightarrow> bool" where
  "IsBusy s \<longleftrightarrow> code s = kBusy"

definition IsTimedOut :: "Status \<Rightarrow> bool" where
  "IsTimedOut s \<longleftrightarrow> code s = kTimedOut"

definition IsExpired :: "Status \<Rightarrow> bool" where
  "IsExpired s \<longleftrightarrow> code s = kExpired"

definition IsTryAgain :: "Status \<Rightarrow> bool" where
  "IsTryAgain s \<longleftrightarrow> code s = kTryAgain"

definition IsCompactionTooLarge :: "Status \<Rightarrow> bool" where
  "IsCompactionTooLarge s \<longleftrightarrow> code s = kCompactionTooLarge"

definition IsColumnFamilyDropped :: "Status \<Rightarrow> bool" where
  "IsColumnFamilyDropped s \<longleftrightarrow> code s = kColumnFamilyDropped"

definition IsDeadlock :: "Status \<Rightarrow> bool" where
  "IsDeadlock s \<longleftrightarrow> code s = kBusy \<and> subcode s = kDeadlock"

definition IsNoSpace :: "Status \<Rightarrow> bool" where
  "IsNoSpace s \<longleftrightarrow> code s = kIOError \<and> subcode s = kNoSpace"

definition IsMemoryLimit :: "Status \<Rightarrow> bool" where
  "IsMemoryLimit s \<longleftrightarrow> code s = kAborted \<and> subcode s = kMemoryLimit"

definition IsPathNotFound :: "Status \<Rightarrow> bool" where
  "IsPathNotFound s \<longleftrightarrow> (code s = kIOError \<or> code s = kNotFound) \<and> subcode s = kPathNotFound"

definition IsManualCompactionPaused :: "Status \<Rightarrow> bool" where
  "IsManualCompactionPaused s \<longleftrightarrow> code s = kIncomplete \<and> subcode s = kManualCompactionPaused"

definition IsTxnNotPrepared :: "Status \<Rightarrow> bool" where
  "IsTxnNotPrepared s \<longleftrightarrow> code s = kInvalidArgument \<and> subcode s = kTxnNotPrepared"

definition IsIOFenced :: "Status \<Rightarrow> bool" where
  "IsIOFenced s \<longleftrightarrow> code s = kIOError \<and> subcode s = kIOFenced"

text \<open>\<^verbatim>\<open>operator==\<close> compares the codes only.\<close>

definition Status_eq :: "Status \<Rightarrow> Status \<Rightarrow> bool" where
  "Status_eq s rhs \<longleftrightarrow> code s = code rhs"

section \<open>Printing\<close>

fun msgs :: "SubCode \<Rightarrow> string" where
  "msgs kNone = ''''"
| "msgs kMutexTimeout = ''Timeout Acquiring Mutex''"
| "msgs kLockTimeout = ''Timeout waiting to lock key''"
| "msgs kLockLimit = ''Failed to acquire lock due to max_num_locks limit''"
| "msgs kNoSpace = ''No space left on device''"
| "msgs kDeadlock = ''Deadlock''"
| "msgs kStaleFile = ''Stale file handle''"
| "msgs kMemoryLimit = ''Memory limit reached''"
| "msgs kSpaceLimit = ''Space limit reached''"
| "msgs kPathNotFound = ''No such file or directory''"
| "msgs KMergeOperandsInsufficientCapacity = ''Insufficient capacity for merge operands''"
| "msgs kManualCompactionPaused = ''Manual compaction paused''"
| "msgs kOverwritten = '' (overwritten)''"
| "msgs kTxnNotPrepared = ''Txn not prepared''"
| "msgs kIOFenced = ''IO fenced off''"
| "msgs kMaxSubCode = ''''"

fun code_type :: "Code \<Rightarrow> string" where
  "code_type kNotFound = ''NotFound: ''"
| "code_type kCorruption = ''Corruption: ''"
| "code_type kNotSupported = ''Not implemented: ''"
| "code_type kInvalidArgument = ''Invalid argument: ''"
| "code_type kIOError = ''IO error: ''"
| "code_type kMergeInProgress = ''Merge in progress: ''"
| "code_type kIncomplete = ''Result incomplete: ''"
| "code_type kShutdownInProgress = ''Shutdown in progress: ''"
| "code_type kTimedOut = ''Operation timed out: ''"
| "code_type kAborted = ''Operation aborted: ''"
| "code_type kBusy = ''Resource busy: ''"
| "code_type kExpired = ''Operation expired: ''"
| "code_type kTryAgain = ''Operation failed. Try again.: ''"
| "code_type kCompactionTooLarge = ''Compaction too large: ''"
| "code_type kColumnFamilyDropped = ''Column family dropped: ''"
| "code_type kOk = ''OK''"
| "code_type kMaxCode = ''Unknown code(16): ''"

text \<open>The message is a C string: \<^verbatim>\<open>append(state_.get())\<close> stops at the first NUL.\<close>

definition ToString :: "Status \<Rightarrow> string" where
  "ToString s =
     (if code s = kOk then ''OK''
      else code_type (code s)
        @ (if subcode s \<noteq> kNone then msgs (subcode s) else [])
        @ (case state s of
             None \<Rightarrow> []
           | Some m \<Rightarrow> (if subcode s \<noteq> kNone then '': '' else [])
               @ takeWhile (\<lambda>c. c \<noteq> CHR 0x00) m))"

section \<open>Evaluation rules\<close>

lemmas status_ctor_defs =
  Status_code_def Status_msg_def OK_def OkOverwritten_def
  NotFound_def NotFound_msg_def NotFound_sub_msg_def Corruption_def Corruption_msg_def NotSupported_def
  NotSupported_msg_def InvalidArgument_def InvalidArgument_msg_def IOError_def IOError_msg_def
  MergeInProgress_def MergeInProgress_msg_def Incomplete_def Incomplete_msg_def
  ShutdownInProgress_def ShutdownInProgress_msg_def Aborted_def Aborted_msg_def Busy_def
  Busy_msg_def TimedOut_def TimedOut_msg_def Expired_def Expired_msg_def TryAgain_def
  TryAgain_msg_def CompactionTooLarge_def CompactionTooLarge_msg_def ColumnFamilyDropped_def
  ColumnFamilyDropped_msg_def NoSpace_def NoSpace_msg_def MemoryLimit_def MemoryLimit_msg_def
  SpaceLimit_def SpaceLimit_msg_def PathNotFound_def PathNotFound_msg_def TxnNotPrepared_def
  TxnNotPrepared_msg_def

lemmas status_pred_defs =
  ok_def IsOkOverwritten_def IsNotFound_def IsCorruption_def IsNotSupported_def
  IsInvalidArgument_def IsIOError_def IsMergeInProgress_def IsIncomplete_def
  IsShutdownInProgress_def IsAborted_def IsLockLimit_def IsBusy_def IsTimedOut_def IsExpired_def
  IsTryAgain_def IsCompactionTooLarge_def IsColumnFamilyDropped_def IsDeadlock_def IsNoSpace_def
  IsMemoryLimit_def IsPathNotFound_def IsManualCompactionPaused_def IsTxnNotPrepared_def
  IsIOFenced_def

declare status_pred_defs [status_simps] status_ctor_defs [status_simps]

lemma ok_OK [simp]: "ok OK"
  by (simp add: status_simps)

lemma not_ok_error [simp]:
  "\<not> ok (NotFound sc)" "\<not> ok (NotSupported_msg m m2)" "\<not> ok (InvalidArgument_msg m m2)"
  "\<not> ok (Busy sc)" "\<not> ok (TimedOut sc)" "\<not> ok (Expired sc)" "\<not> ok (TryAgain_msg m m2)"
  "\<not> ok (InvalidArgument sc)" "\<not> ok (NotSupported sc)" "\<not> ok (Corruption_msg m m2)"
  "\<not> ok TxnNotPrepared"
  by (simp_all add: status_simps)

lemma IsTimedOut_simps [simp]:
  "IsTimedOut (TimedOut sc)" "\<not> IsTimedOut (Busy sc)" "\<not> IsTimedOut OK"
  by (simp_all add: status_simps)

lemma IsTimedOut_not_ok [simp]: "IsTimedOut s \<Longrightarrow> \<not> ok s"
  by (simp add: status_simps)

lemma code_type_not_OK: "c \<noteq> kOk \<Longrightarrow> \<exists>t. code_type c = t \<and> length t > 2"
  by (cases c) simp_all

section \<open>Properties\<close>

text \<open>
  A status prints as "OK" exactly when it is a success, whatever its subcode and message.
\<close>

theorem ToString_OK_iff: "ToString s = ''OK'' \<longleftrightarrow> ok s"
proof (cases "code s = kOk")
  case False
  then obtain t where "code_type (code s) = t" "length t > 2"
    using code_type_not_OK by blast
  then have "length (ToString s) > 2"
    using False by (simp add: ToString_def)
  then have "ToString s \<noteq> ''OK''" by auto
  with False show ?thesis by (simp add: ok_def)
qed (simp add: ToString_def ok_def)


end
