(* ===== verification/Lock_Tracker.thy ===== *)
theory Lock_Tracker
  imports Prelude
begin

text \<open>
  \<^verbatim>\<open>lock/lock_tracker.h\<close> and \<^verbatim>\<open>lock/point/point_lock_tracker.{h,cc}\<close>: the record a transaction keeps of
  the point locks it acquired, per column family and key, with the number of reads and of writes
  (32-bit counters), the earliest sequence number and the strongest mode requested.

  \<^verbatim>\<open>tracked_keys_.at(cf)\<close> throws for an absent column family and dereferencing an absent key is
  undefined; both are the result \<^const>\<open>None\<close>. The \<^verbatim>\<open>assert\<close>s of the source have no effect in a release
  build and are not branches of the model; the lemmas state when their conditions hold.

  The locale \<open>point_tracker\<close> is the contract the transaction relies on for its save points: a tracker
  counts requests, and \<open>Subtract\<close> undoes the requests of a save point.
\<close>

section \<open>Data\<close>

record PointLockRequest =
  plr_column_family_id :: ColumnFamilyId
  plr_key :: string
  plr_seq :: SequenceNumber
  plr_read_only :: bool
  plr_exclusive :: bool

record PointLockStatus =
  pls_locked :: bool
  pls_exclusive :: bool
  pls_seq :: SequenceNumber

datatype UntrackStatus = NOT_TRACKED | UNTRACKED | REMOVED

record TrackedKeyInfo =
  tki_seq :: SequenceNumber
  tki_num_writes :: u32
  tki_num_reads :: u32
  tki_exclusive :: bool

type_synonym TrackedKeyInfos = "(string \<times> TrackedKeyInfo) list"
type_synonym TrackedKeys = "(ColumnFamilyId \<times> TrackedKeyInfos) list"

definition TrackedKeyInfo_new :: "SequenceNumber \<Rightarrow> TrackedKeyInfo" where
  "TrackedKeyInfo_new seq_no =
     \<lparr>tki_seq = seq_no, tki_num_writes = 0, tki_num_reads = 0, tki_exclusive = False\<rparr>"

definition TrackedKeyInfo_Merge :: "TrackedKeyInfo \<Rightarrow> TrackedKeyInfo \<Rightarrow> TrackedKeyInfo" where
  "TrackedKeyInfo_Merge this info =
     this\<lparr>tki_num_reads := tki_num_reads this + tki_num_reads info,
          tki_num_writes := tki_num_writes this + tki_num_writes info,
          tki_exclusive := tki_exclusive this \<or> tki_exclusive info\<rparr>"

section \<open>Operations of PointLockTracker\<close>

definition PointLockTracker_new :: TrackedKeys where
  "PointLockTracker_new = []"

definition Track :: "TrackedKeys \<Rightarrow> PointLockRequest \<Rightarrow> TrackedKeys" where
  "Track tracked_keys r =
     (let keys = (case map_of tracked_keys (plr_column_family_id r) of None \<Rightarrow> [] | Some ks \<Rightarrow> ks);
          found = map_of keys (plr_key r);
          it = (case found of None \<Rightarrow> TrackedKeyInfo_new (plr_seq r) | Some info \<Rightarrow> info);
          it = (if found \<noteq> None \<and> plr_seq r < tki_seq it then it\<lparr>tki_seq := plr_seq r\<rparr> else it);
          it = (if plr_read_only r then it\<lparr>tki_num_reads := tki_num_reads it + 1\<rparr>
                else it\<lparr>tki_num_writes := tki_num_writes it + 1\<rparr>);
          it = it\<lparr>tki_exclusive := tki_exclusive it \<or> plr_exclusive r\<rparr>
      in AList.update (plr_column_family_id r) (AList.update (plr_key r) it keys) tracked_keys)"

definition Untrack :: "TrackedKeys \<Rightarrow> PointLockRequest \<Rightarrow> UntrackStatus \<times> TrackedKeys" where
  "Untrack tracked_keys r =
     (case map_of tracked_keys (plr_column_family_id r) of
        None \<Rightarrow> (NOT_TRACKED, tracked_keys)
      | Some keys \<Rightarrow>
          (case map_of keys (plr_key r) of
             None \<Rightarrow> (NOT_TRACKED, tracked_keys)
           | Some info \<Rightarrow>
               let (untracked, info) =
                     (if plr_read_only r
                      then if tki_num_reads info > 0
                           then (True, info\<lparr>tki_num_reads := tki_num_reads info - 1\<rparr>)
                           else (False, info)
                      else if tki_num_writes info > 0
                           then (True, info\<lparr>tki_num_writes := tki_num_writes info - 1\<rparr>)
                           else (False, info));
                   removed = (tki_num_reads info = 0 \<and> tki_num_writes info = 0);
                   keys = (if removed then AList.delete (plr_key r) keys
                           else AList.update (plr_key r) info keys);
                   tracked_keys =
                     (if removed \<and> keys = []
                      then AList.delete (plr_column_family_id r) tracked_keys
                      else AList.update (plr_column_family_id r) keys tracked_keys)
               in (if removed then REMOVED else if untracked then UNTRACKED else NOT_TRACKED,
                   tracked_keys)))"

fun Merge_keys :: "TrackedKeyInfos \<Rightarrow> TrackedKeyInfos \<Rightarrow> TrackedKeyInfos" where
  "Merge_keys current_keys [] = current_keys"
| "Merge_keys current_keys ((key, info) # keys) =
     Merge_keys
       (case map_of current_keys key of
          None \<Rightarrow> AList.update key info current_keys
        | Some current_info \<Rightarrow>
            AList.update key (TrackedKeyInfo_Merge current_info info) current_keys) keys"

fun Tracker_Merge :: "TrackedKeys \<Rightarrow> TrackedKeys \<Rightarrow> TrackedKeys" where
  "Tracker_Merge tracked_keys [] = tracked_keys"
| "Tracker_Merge tracked_keys ((cf, keys) # t) =
     Tracker_Merge
       (case map_of tracked_keys cf of
          None \<Rightarrow> AList.update cf keys tracked_keys
        | Some current_keys \<Rightarrow> AList.update cf (Merge_keys current_keys keys) tracked_keys) t"

fun Subtract_keys :: "TrackedKeyInfos \<Rightarrow> TrackedKeyInfos \<Rightarrow> TrackedKeyInfos option" where
  "Subtract_keys current_keys [] = Some current_keys"
| "Subtract_keys current_keys ((key, info) # keys) =
     (case map_of current_keys key of
        None \<Rightarrow> None
      | Some c \<Rightarrow>
          let num_reads = tki_num_reads info;
              num_writes = tki_num_writes info;
              c = (if num_reads > 0 then c\<lparr>tki_num_reads := tki_num_reads c - num_reads\<rparr> else c);
              c = (if num_writes > 0 then c\<lparr>tki_num_writes := tki_num_writes c - num_writes\<rparr> else c)
          in Subtract_keys
               (if tki_num_reads c = 0 \<and> tki_num_writes c = 0 then AList.delete key current_keys
                else AList.update key c current_keys) keys)"

fun Subtract :: "TrackedKeys \<Rightarrow> TrackedKeys \<Rightarrow> TrackedKeys option" where
  "Subtract tracked_keys [] = Some tracked_keys"
| "Subtract tracked_keys ((cf, keys) # t) =
     (case map_of tracked_keys cf of
        None \<Rightarrow> None
      | Some current_keys \<Rightarrow>
          (case Subtract_keys current_keys keys of
             None \<Rightarrow> None
           | Some current_keys \<Rightarrow> Subtract (AList.update cf current_keys tracked_keys) t))"

fun SinceSavePoint_keys ::
  "ColumnFamilyId \<Rightarrow> TrackedKeyInfos \<Rightarrow> TrackedKeyInfos \<Rightarrow> TrackedKeys \<Rightarrow> TrackedKeys option" where
  "SinceSavePoint_keys cf current_keys [] t = Some t"
| "SinceSavePoint_keys cf current_keys ((key, info) # keys) t =
     (let num_reads = tki_num_reads info; num_writes = tki_num_writes info
      in case map_of current_keys key of
           None \<Rightarrow> None
         | Some c \<Rightarrow>
             SinceSavePoint_keys cf current_keys keys
               (if tki_num_reads c = num_reads \<and> tki_num_writes c = num_writes
                then Track t \<lparr>plr_column_family_id = cf, plr_key = key, plr_seq = tki_seq info,
                              plr_read_only = (num_writes = 0), plr_exclusive = tki_exclusive info\<rparr>
                else t))"

fun SinceSavePoint_cfs :: "TrackedKeys \<Rightarrow> TrackedKeys \<Rightarrow> TrackedKeys \<Rightarrow> TrackedKeys option" where
  "SinceSavePoint_cfs tracked_keys [] t = Some t"
| "SinceSavePoint_cfs tracked_keys ((cf, keys) # save_point_t) t =
     (case map_of tracked_keys cf of
        None \<Rightarrow> None
      | Some current_keys \<Rightarrow>
          (case SinceSavePoint_keys cf current_keys keys t of
             None \<Rightarrow> None
           | Some t \<Rightarrow> SinceSavePoint_cfs tracked_keys save_point_t t))"

definition GetTrackedLocksSinceSavePoint :: "TrackedKeys \<Rightarrow> TrackedKeys \<Rightarrow> TrackedKeys option" where
  "GetTrackedLocksSinceSavePoint tracked_keys save_point_tracker =
     SinceSavePoint_cfs tracked_keys save_point_tracker PointLockTracker_new"

definition Tracker_GetPointLockStatus :: "TrackedKeys \<Rightarrow> ColumnFamilyId \<Rightarrow> string \<Rightarrow> PointLockStatus" where
  "Tracker_GetPointLockStatus tracked_keys cf key =
     (let status = \<lparr>pls_locked = False, pls_exclusive = True, pls_seq = 0\<rparr>
      in case map_of tracked_keys cf of
           None \<Rightarrow> status
         | Some keys \<Rightarrow>
             (case map_of keys key of
                None \<Rightarrow> status
              | Some key_info \<Rightarrow>
                  status\<lparr>pls_locked := True, pls_exclusive := tki_exclusive key_info,
                         pls_seq := tki_seq key_info\<rparr>))"

fun GetNumPointLocks :: "TrackedKeys \<Rightarrow> u64" where
  "GetNumPointLocks [] = 0"
| "GetNumPointLocks ((cf, keys) # t) = of_nat (length keys) + GetNumPointLocks t"

definition Tracker_Clear :: "TrackedKeys \<Rightarrow> TrackedKeys" where
  "Tracker_Clear tracked_keys = []"

text \<open>
  The two iterators walk a snapshot of the map: what is left to visit is a list. \<open>Next\<close> without a
  next element is undefined, \<^const>\<open>None\<close> in the model.
\<close>

definition GetColumnFamilyIterator :: "TrackedKeys \<Rightarrow> ColumnFamilyId list" where
  "GetColumnFamilyIterator tracked_keys = map fst tracked_keys"

definition GetKeyIterator :: "TrackedKeys \<Rightarrow> ColumnFamilyId \<Rightarrow> string list option" where
  "GetKeyIterator tracked_keys cf = map_option (map fst) (map_of tracked_keys cf)"

definition Iter_HasNext :: "'a list \<Rightarrow> bool" where
  "Iter_HasNext it \<longleftrightarrow> it \<noteq> []"

definition Iter_Next :: "'a list \<Rightarrow> ('a \<times> 'a list) option" where
  "Iter_Next it = (case it of [] \<Rightarrow> None | x # it' \<Rightarrow> Some (x, it'))"

section \<open>What a tracker knows of a key\<close>

definition tracked_at :: "TrackedKeys \<Rightarrow> ColumnFamilyId \<Rightarrow> string \<Rightarrow> TrackedKeyInfo option" where
  "tracked_at t cf key = Option.bind (map_of t cf) (\<lambda>keys. map_of keys key)"

definition reads_of :: "TrackedKeys \<Rightarrow> ColumnFamilyId \<Rightarrow> string \<Rightarrow> nat" where
  "reads_of t cf key = (case tracked_at t cf key of None \<Rightarrow> 0 | Some i \<Rightarrow> unat (tki_num_reads i))"

definition writes_of :: "TrackedKeys \<Rightarrow> ColumnFamilyId \<Rightarrow> string \<Rightarrow> nat" where
  "writes_of t cf key = (case tracked_at t cf key of None \<Rightarrow> 0 | Some i \<Rightarrow> unat (tki_num_writes i))"

definition live_info :: "TrackedKeyInfo \<Rightarrow> bool" where
  "live_info i \<longleftrightarrow> tki_num_reads i \<noteq> 0 \<or> tki_num_writes i \<noteq> 0"

definition keys_inv :: "TrackedKeyInfos \<Rightarrow> bool" where
  "keys_inv keys \<longleftrightarrow> alist_ok keys \<and> (\<forall>k i. map_of keys k = Some i \<longrightarrow> live_info i)"

text \<open>
  \<open>trk_inv\<close> holds of every tracker: keys are distinct and every tracked key was requested at least
  once. \<open>trk_compact\<close> holds of the trackers of save points, which \<open>Subtract\<close> is never applied to: no
  column family is left without keys.
\<close>

definition trk_inv :: "TrackedKeys \<Rightarrow> bool" where
  "trk_inv t \<longleftrightarrow> alist_ok t \<and> (\<forall>cf keys. map_of t cf = Some keys \<longrightarrow> keys_inv keys)"

definition trk_compact :: "TrackedKeys \<Rightarrow> bool" where
  "trk_compact t \<longleftrightarrow> trk_inv t \<and> (\<forall>cf keys. map_of t cf = Some keys \<longrightarrow> keys \<noteq> [])"

lemma trk_inv_Cons:
  "trk_inv ((cf, ks) # t) \<longleftrightarrow> keys_inv ks \<and> map_of t cf = None \<and> trk_inv t"
proof
  assume a: "trk_inv ((cf, ks) # t)"
  then have fresh: "map_of t cf = None" by (simp add: trk_inv_def map_of_eq_None_iff)
  have "keys_inv ks'" if "map_of t cf' = Some ks'" for cf' ks'
    using a that fresh unfolding trk_inv_def by (metis map_of_Cons_code(2) option.distinct(1))
  moreover have "keys_inv ks" using a unfolding trk_inv_def by (metis map_of_Cons_code(2))
  ultimately show "keys_inv ks \<and> map_of t cf = None \<and> trk_inv t"
    using a fresh by (simp add: trk_inv_def)
qed (auto simp: trk_inv_def map_of_eq_None_iff)

lemma trk_compact_Cons:
  "trk_compact ((cf, ks) # t) \<longleftrightarrow> keys_inv ks \<and> ks \<noteq> [] \<and> map_of t cf = None \<and> trk_compact t"
  unfolding trk_compact_def trk_inv_Cons
  by (metis map_of_Cons_code(2) option.distinct(1) option.inject)

lemma unat_pos_iff: "(0 < unat (x :: u32)) = (x \<noteq> 0)"
  by (simp add: unat_eq_zero neq0_conv [symmetric])

lemma trk_inv_alist: "trk_inv t \<Longrightarrow> alist_ok t" "trk_inv t \<Longrightarrow> map_of t cf = Some ks \<Longrightarrow> alist_ok ks"
  unfolding trk_inv_def keys_inv_def by blast+

lemma tracked_live: "trk_inv t \<Longrightarrow> tracked_at t cf k = Some i \<Longrightarrow> live_info i"
  unfolding trk_inv_def keys_inv_def tracked_at_def bind_eq_Some_conv by blast

lemma tracked_counts:
  assumes "trk_inv t"
  shows "tracked_at t cf k \<noteq> None \<longleftrightarrow> 0 < reads_of t cf k + writes_of t cf k"
proof (cases "tracked_at t cf k")
  case (Some i)
  with tracked_live [OF assms this] show ?thesis
    by (auto simp: reads_of_def writes_of_def live_info_def unat_pos_iff)
qed (simp add: reads_of_def writes_of_def)

lemma status_tracked: "pls_locked (Tracker_GetPointLockStatus t cf k) \<longleftrightarrow> tracked_at t cf k \<noteq> None"
  by (simp add: Tracker_GetPointLockStatus_def tracked_at_def Let_def split: option.split)

lemma status_locked:
  "trk_inv t \<Longrightarrow> pls_locked (Tracker_GetPointLockStatus t cf k) \<longleftrightarrow> 0 < reads_of t cf k + writes_of t cf k"
  unfolding status_tracked by (rule tracked_counts)

lemma trk_inv_update: "trk_inv t \<Longrightarrow> keys_inv ks \<Longrightarrow> trk_inv (AList.update cf ks t)"
  by (auto simp: trk_inv_def)

lemma keys_inv_update: "keys_inv ks \<Longrightarrow> live_info i \<Longrightarrow> keys_inv (AList.update k i ks)"
  by (auto simp: keys_inv_def)

lemma keys_inv_delete: "keys_inv ks \<Longrightarrow> keys_inv (AList.delete k ks)"
  by (auto simp: keys_inv_def)

lemma keys_inv_Nil [simp]: "keys_inv []"
  by (simp add: keys_inv_def)

lemma tracked_at_update:
  "tracked_at (AList.update cf ks t) cf' k = (if cf' = cf then map_of ks k else tracked_at t cf' k)"
  by (simp add: tracked_at_def)

lemma update_neq_Nil [simp]: "AList.update k v xs \<noteq> []"
  by (cases xs) auto

lemma tracked_at_Cons:
  "tracked_at ((cf, ks) # t) cf' k = (if cf' = cf then map_of ks k else tracked_at t cf' k)"
  by (simp add: tracked_at_def)

lemma tracked_at_cf: "map_of t cf = Some ks \<Longrightarrow> tracked_at t cf k = map_of ks k"
  by (simp add: tracked_at_def)

lemma tracked_at_fresh: "map_of t cf = None \<Longrightarrow> tracked_at t cf k = None"
  by (simp add: tracked_at_def)

subsection \<open>Track\<close>

definition track_info :: "TrackedKeyInfo option \<Rightarrow> PointLockRequest \<Rightarrow> TrackedKeyInfo" where
  "track_info found r =
     (let it = (case found of None \<Rightarrow> TrackedKeyInfo_new (plr_seq r) | Some info \<Rightarrow> info)
      in \<lparr>tki_seq = min (tki_seq it) (plr_seq r),
          tki_num_writes = tki_num_writes it + (if plr_read_only r then 0 else 1),
          tki_num_reads = tki_num_reads it + (if plr_read_only r then 1 else 0),
          tki_exclusive = (tki_exclusive it \<or> plr_exclusive r)\<rparr>)"

lemma Track_eq:
  "Track t r = AList.update (plr_column_family_id r)
     (AList.update (plr_key r)
       (track_info (tracked_at t (plr_column_family_id r) (plr_key r)) r)
       (case map_of t (plr_column_family_id r) of None \<Rightarrow> [] | Some ks \<Rightarrow> ks)) t"
  by (cases "map_of t (plr_column_family_id r)")
    (auto simp: Track_def track_info_def tracked_at_def Let_def TrackedKeyInfo_new_def min_def
      split: option.splits intro!: arg_cong [where f = "\<lambda>i. AList.update _ (AList.update _ i _) _"])

lemma tracked_at_Track:
  "tracked_at (Track t r) cf k =
     (if cf = plr_column_family_id r \<and> k = plr_key r then Some (track_info (tracked_at t cf k) r)
      else tracked_at t cf k)"
  by (auto simp: Track_eq tracked_at_update) (auto simp: tracked_at_def split: option.splits)

lemma unat_Suc: "unat x + 1 < 2 ^ 32 \<Longrightarrow> unat (x + 1 :: u32) = unat x + 1"
  by (simp add: unat_word_ariths)

definition room_for :: "TrackedKeys \<Rightarrow> nat \<Rightarrow> bool" where
  "room_for t n \<longleftrightarrow> (\<forall>cf k. reads_of t cf k + n < 2 ^ 32 \<and> writes_of t cf k + n < 2 ^ 32)"

lemma track_info_counts:
  assumes "reads_of t cf k + 1 < 2 ^ 32" "writes_of t cf k + 1 < 2 ^ 32"
  shows "unat (tki_num_reads (track_info (tracked_at t cf k) r)) =
      reads_of t cf k + (if plr_read_only r then 1 else 0)"
    and "unat (tki_num_writes (track_info (tracked_at t cf k) r)) =
      writes_of t cf k + (if plr_read_only r then 0 else 1)"
  using assms
  by (auto simp: track_info_def reads_of_def writes_of_def Let_def TrackedKeyInfo_new_def unat_Suc
      split: option.splits)

lemma reads_of_Track:
  assumes "room_for t 1"
  shows "reads_of (Track t r) cf k = reads_of t cf k +
      (if cf = plr_column_family_id r \<and> k = plr_key r \<and> plr_read_only r then 1 else 0)"
  using track_info_counts(1) [of t cf k r] assms
  by (auto simp: room_for_def reads_of_def [of "Track t r"] tracked_at_Track)
    (auto simp: reads_of_def)

lemma writes_of_Track:
  assumes "room_for t 1"
  shows "writes_of (Track t r) cf k = writes_of t cf k +
      (if cf = plr_column_family_id r \<and> k = plr_key r \<and> \<not> plr_read_only r then 1 else 0)"
  using track_info_counts(2) [of t cf k r] assms
  by (auto simp: room_for_def writes_of_def [of "Track t r"] tracked_at_Track)
    (auto simp: writes_of_def)

lemma live_track_info:
  assumes "room_for t 1"
  shows "live_info (track_info (tracked_at t cf k) r)"
proof -
  have "0 < unat (tki_num_reads (track_info (tracked_at t cf k) r)) +
      unat (tki_num_writes (track_info (tracked_at t cf k) r))"
    using track_info_counts [of t cf k r] assms by (auto simp: room_for_def)
  then show ?thesis by (auto simp: live_info_def unat_pos_iff)
qed

lemma trk_inv_Track: "trk_inv t \<Longrightarrow> room_for t 1 \<Longrightarrow> trk_inv (Track t r)"
  unfolding Track_eq
  by (intro trk_inv_update keys_inv_update live_track_info)
    (auto simp: trk_inv_def split: option.splits)

lemma trk_compact_Track: "trk_compact t \<Longrightarrow> room_for t 1 \<Longrightarrow> trk_compact (Track t r)"
  using trk_inv_Track [of t r]
  by (auto simp: trk_compact_def Track_eq split: if_splits)

subsection \<open>Merge\<close>

definition merge_info :: "TrackedKeyInfo option \<Rightarrow> TrackedKeyInfo option \<Rightarrow> TrackedKeyInfo option" where
  "merge_info c i =
     (case i of
        None \<Rightarrow> c
      | Some i \<Rightarrow> (case c of None \<Rightarrow> Some i | Some c \<Rightarrow> Some (TrackedKeyInfo_Merge c i)))"

lemma merge_info_None: "merge_info c None = c" "merge_info None i = i"
  by (simp_all add: merge_info_def split: option.split)

lemma Merge_keys_ok: "alist_ok cur \<Longrightarrow> alist_ok (Merge_keys cur ks)"
  by (induction cur ks rule: Merge_keys.induct) (auto split: option.splits)

lemma Merge_keys_at:
  "alist_ok ks \<Longrightarrow> map_of (Merge_keys cur ks) k = merge_info (map_of cur k) (map_of ks k)"
proof (induction cur ks rule: Merge_keys.induct)
  case (2 cur key info ks)
  then have "map_of ks key = None" by (auto simp: map_of_eq_None_iff)
  with 2 show ?case by (auto simp: merge_info_def split: option.splits)
qed (simp add: merge_info_def)

lemma Tracker_Merge_at:
  "alist_ok t \<Longrightarrow> (\<And>cf ks. map_of t cf = Some ks \<Longrightarrow> alist_ok ks) \<Longrightarrow>
    tracked_at (Tracker_Merge s t) cf k = merge_info (tracked_at s cf k) (tracked_at t cf k)"
proof (induction s t rule: Tracker_Merge.induct)
  case (2 s cf0 keys t)
  have fresh: "map_of t cf0 = None" using 2(2) by (simp add: map_of_eq_None_iff)
  have ok: "alist_ok keys" using 2(3) [of cf0 keys] by simp
  have oks: "map_of t cf = Some ks \<Longrightarrow> alist_ok ks" for cf ks
    using 2(3) [of cf ks] fresh by (cases "cf = cf0") auto
  define s' where "s' = (case map_of s cf0 of None \<Rightarrow> AList.update cf0 keys s
      | Some cur \<Rightarrow> AList.update cf0 (Merge_keys cur keys) s)"
  have at': "tracked_at s' cf k =
      (if cf = cf0 then merge_info (tracked_at s cf0 k) (map_of keys k) else tracked_at s cf k)"
    by (cases "map_of s cf0")
      (simp_all add: s'_def tracked_at_update Merge_keys_at ok tracked_at_fresh tracked_at_cf merge_info_None)
  have "tracked_at (Tracker_Merge s' t) cf k = merge_info (tracked_at s' cf k) (tracked_at t cf k)"
    unfolding s'_def by (rule 2(1)) (use 2(2) oks in simp_all)
  moreover have "Tracker_Merge s ((cf0, keys) # t) = Tracker_Merge s' t" by (simp add: s'_def)
  ultimately show ?case
    using tracked_at_fresh [OF fresh] by (simp add: at' tracked_at_Cons merge_info_None)
qed (simp add: merge_info_None tracked_at_fresh)

lemma live_Merge:
  assumes "live_info c" "unat (tki_num_reads c) + unat (tki_num_reads i) < 2 ^ 32"
    "unat (tki_num_writes c) + unat (tki_num_writes i) < 2 ^ 32"
  shows "live_info (TrackedKeyInfo_Merge c i)"
    and "unat (tki_num_reads (TrackedKeyInfo_Merge c i)) =
      unat (tki_num_reads c) + unat (tki_num_reads i)"
    and "unat (tki_num_writes (TrackedKeyInfo_Merge c i)) =
      unat (tki_num_writes c) + unat (tki_num_writes i)"
proof -
  show r: "unat (tki_num_reads (TrackedKeyInfo_Merge c i)) =
      unat (tki_num_reads c) + unat (tki_num_reads i)"
    and w: "unat (tki_num_writes (TrackedKeyInfo_Merge c i)) =
      unat (tki_num_writes c) + unat (tki_num_writes i)"
    using assms by (simp_all add: TrackedKeyInfo_Merge_def unat_word_ariths)
  have "0 < unat (tki_num_reads (TrackedKeyInfo_Merge c i)) + unat (tki_num_writes (TrackedKeyInfo_Merge c i))"
    using assms(1) unat_pos_iff [of "tki_num_reads c"] unat_pos_iff [of "tki_num_writes c"]
    unfolding r w live_info_def by linarith
  then show "live_info (TrackedKeyInfo_Merge c i)" by (auto simp: live_info_def unat_pos_iff)
qed

subsection \<open>Subtract\<close>

definition sub_info :: "TrackedKeyInfo option \<Rightarrow> TrackedKeyInfo option \<Rightarrow> TrackedKeyInfo option" where
  "sub_info c i =
     (case (c, i) of
        (Some c, Some i) \<Rightarrow>
          let c = c\<lparr>tki_num_reads := tki_num_reads c - tki_num_reads i,
                    tki_num_writes := tki_num_writes c - tki_num_writes i\<rparr>
          in if live_info c then Some c else None
      | _ \<Rightarrow> c)"

lemma sub_info_None: "sub_info c None = c"
  by (simp add: sub_info_def split: option.split)

lemma sub_info_live:
  "sub_info c i = Some j \<Longrightarrow> (\<And>c'. c = Some c' \<Longrightarrow> live_info c') \<Longrightarrow> live_info j"
  by (auto simp: sub_info_def Let_def split: option.splits if_splits)

lemma sub_reads:
  "(if 0 < n then c\<lparr>tki_num_reads := tki_num_reads c - n\<rparr> else c) =
    c\<lparr>tki_num_reads := tki_num_reads c - n\<rparr>"
  by (cases "n = 0") (simp_all add: word_gt_0)

lemma sub_writes:
  "(if 0 < n then c\<lparr>tki_num_writes := tki_num_writes c - n\<rparr> else c) =
    c\<lparr>tki_num_writes := tki_num_writes c - n\<rparr>"
  by (cases "n = 0") (simp_all add: word_gt_0)

lemma Subtract_keys_step:
  "map_of cur key = Some c \<Longrightarrow>
    Subtract_keys cur ((key, i) # ks) =
      Subtract_keys (case sub_info (Some c) (Some i) of
        None \<Rightarrow> AList.delete key cur | Some c' \<Rightarrow> AList.update key c' cur) ks"
  by (simp add: sub_info_def live_info_def Let_def sub_reads sub_writes)

lemma Subtract_keys_at:
  "alist_ok cur \<Longrightarrow> alist_ok ks \<Longrightarrow> (\<And>k. map_of ks k \<noteq> None \<Longrightarrow> map_of cur k \<noteq> None) \<Longrightarrow>
    \<exists>u. Subtract_keys cur ks = Some u \<and> alist_ok u \<and>
      (\<forall>k. map_of u k = sub_info (map_of cur k) (map_of ks k))"
proof (induction ks arbitrary: cur)
  case (Cons p ks)
  obtain key i where p: "p = (key, i)" by force
  have fresh: "map_of ks key = None" using Cons.prems(2) by (auto simp: p map_of_eq_None_iff)
  obtain c where c: "map_of cur key = Some c" using Cons.prems(3) [of key] by (auto simp: p)
  define cur' where "cur' = (case sub_info (Some c) (Some i) of
      None \<Rightarrow> AList.delete key cur | Some c' \<Rightarrow> AList.update key c' cur)"
  have at': "map_of cur' k = (if k = key then sub_info (Some c) (Some i) else map_of cur k)" for k
    by (cases "sub_info (Some c) (Some i)") (simp_all add: cur'_def)
  have "alist_ok cur'" using Cons.prems(1) by (auto simp: cur'_def split: option.split)
  moreover have "map_of cur' k \<noteq> None" if "map_of ks k \<noteq> None" for k
    using that fresh Cons.prems(3) [of k] by (auto simp: at' p)
  ultimately obtain u where u: "Subtract_keys cur' ks = Some u" "alist_ok u"
    "\<And>k. map_of u k = sub_info (map_of cur' k) (map_of ks k)"
    using Cons.IH [of cur'] Cons.prems(2) by (auto simp: p)
  have "map_of u k = sub_info (map_of cur k) (map_of (p # ks) k)" for k
    using fresh c by (cases "k = key") (simp_all add: u(3) at' p sub_info_None)
  moreover have "Subtract_keys cur (p # ks) = Some u"
    using u(1) unfolding p Subtract_keys_step [OF c] cur'_def .
  ultimately show ?case using u(2) by blast
qed (simp add: sub_info_None)

lemma Subtract_at:
  "trk_inv t \<Longrightarrow> trk_compact s \<Longrightarrow> (\<And>cf k. tracked_at s cf k \<noteq> None \<Longrightarrow> tracked_at t cf k \<noteq> None) \<Longrightarrow>
    \<exists>u. Subtract t s = Some u \<and> trk_inv u \<and>
      (\<forall>cf k. tracked_at u cf k = sub_info (tracked_at t cf k) (tracked_at s cf k))"
proof (induction s arbitrary: t)
  case (Cons p s)
  obtain cf0 ks where p: "p = (cf0, ks)" by force
  have s: "keys_inv ks" "ks \<noteq> []" "map_of s cf0 = None" "trk_compact s"
    using Cons.prems(2) by (auto simp: p trk_compact_Cons)
  obtain cur where cur: "map_of t cf0 = Some cur"
    using Cons.prems(3) [of cf0 "fst (hd ks)"] s(2)
    by (cases ks; cases "map_of t cf0") (simp_all add: p tracked_at_Cons tracked_at_fresh split: prod.splits)
  have "map_of cur k \<noteq> None" if "map_of ks k \<noteq> None" for k
    using Cons.prems(3) [of cf0 k] that cur by (simp add: p tracked_at_def)
  moreover have kcur: "keys_inv cur" using Cons.prems(1) cur unfolding trk_inv_def by blast
  ultimately obtain v where v: "Subtract_keys cur ks = Some v" "alist_ok v"
    "\<And>k. map_of v k = sub_info (map_of cur k) (map_of ks k)"
    using Subtract_keys_at [of cur ks] s(1) by (auto simp: keys_inv_def)
  have kv: "keys_inv v"
    unfolding keys_inv_def v(3) using kcur v(2) sub_info_live unfolding keys_inv_def by blast
  define t' where "t' = AList.update cf0 v t"
  have at': "tracked_at t' cf k = (if cf = cf0 then map_of v k else tracked_at t cf k)" for cf k
    by (simp add: t'_def tracked_at_update)
  have "trk_inv t'" unfolding t'_def by (intro trk_inv_update Cons.prems(1) kv)
  moreover have "tracked_at t' cf k \<noteq> None" if "tracked_at s cf k \<noteq> None" for cf k
  proof -
    have "cf \<noteq> cf0" using that s(3) by (auto simp: tracked_at_def)
    then have "tracked_at (p # s) cf k = tracked_at s cf k" by (simp add: p tracked_at_def)
    with that Cons.prems(3) [of cf k] \<open>cf \<noteq> cf0\<close> show ?thesis by (simp add: at')
  qed
  ultimately obtain u where u: "Subtract t' s = Some u" "trk_inv u"
    "\<And>cf k. tracked_at u cf k = sub_info (tracked_at t' cf k) (tracked_at s cf k)"
    using Cons.IH [of t'] s(4) by auto
  have "tracked_at u cf k = sub_info (tracked_at t cf k) (tracked_at (p # s) cf k)" for cf k
    using tracked_at_fresh [OF s(3)] tracked_at_cf [OF cur]
    by (simp add: u(3) at' v(3) p tracked_at_Cons sub_info_None)
  moreover have "Subtract t (p # s) = Some u" using u(1) cur v(1) by (simp add: p t'_def)
  ultimately show ?case using u(2) by blast
qed (simp add: sub_info_None tracked_at_def)

lemma sub_info_counts:
  assumes "live_info c" "tki_num_reads i \<le> tki_num_reads c" "tki_num_writes i \<le> tki_num_writes c"
  shows "(case sub_info (Some c) (Some i) of None \<Rightarrow> 0 | Some j \<Rightarrow> unat (tki_num_reads j)) =
      unat (tki_num_reads c) - unat (tki_num_reads i)"
    and "(case sub_info (Some c) (Some i) of None \<Rightarrow> 0 | Some j \<Rightarrow> unat (tki_num_writes j)) =
      unat (tki_num_writes c) - unat (tki_num_writes i)"
  using assms by (auto simp: sub_info_def live_info_def Let_def unat_sub word_le_nat_alt)

lemma counts_le_info:
  assumes "tracked_at s cf k = Some i" "tracked_at t cf k = Some c"
    "reads_of s cf k \<le> reads_of t cf k" "writes_of s cf k \<le> writes_of t cf k"
  shows "tki_num_reads i \<le> tki_num_reads c" "tki_num_writes i \<le> tki_num_writes c"
  using assms by (simp_all add: reads_of_def writes_of_def word_le_nat_alt)

definition counts_le :: "TrackedKeys \<Rightarrow> TrackedKeys \<Rightarrow> bool" where
  "counts_le s t \<longleftrightarrow>
     (\<forall>cf k. reads_of s cf k \<le> reads_of t cf k \<and> writes_of s cf k \<le> writes_of t cf k)"

lemma counts_le_tracked:
  assumes "trk_inv s" "trk_inv t" "counts_le s t" "tracked_at s cf k \<noteq> None"
  shows "tracked_at t cf k \<noteq> None"
proof -
  have "reads_of s cf k \<le> reads_of t cf k" "writes_of s cf k \<le> writes_of t cf k"
    using assms(3) by (simp_all add: counts_le_def)
  then show ?thesis
    using tracked_counts [OF assms(1), of cf k] tracked_counts [OF assms(2), of cf k] assms(4)
    by linarith
qed

lemma Subtract_counts:
  assumes inv: "trk_inv t" "trk_compact s" "counts_le s t"
  shows "\<exists>u. Subtract t s = Some u \<and> trk_inv u \<and>
    (\<forall>cf k. reads_of u cf k = reads_of t cf k - reads_of s cf k \<and>
            writes_of u cf k = writes_of t cf k - writes_of s cf k)"
proof -
  have invs: "trk_inv s" using inv(2) by (simp add: trk_compact_def)
  obtain u where u: "Subtract t s = Some u" "trk_inv u"
    "\<And>cf k. tracked_at u cf k = sub_info (tracked_at t cf k) (tracked_at s cf k)"
    using Subtract_at [OF inv(1,2) counts_le_tracked [OF invs inv(1,3)]] by auto
  have "reads_of u cf k = reads_of t cf k - reads_of s cf k \<and>
      writes_of u cf k = writes_of t cf k - writes_of s cf k" for cf k
  proof (cases "tracked_at s cf k")
    case None
    then show ?thesis by (simp add: reads_of_def writes_of_def u(3) sub_info_None)
  next
    case (Some i)
    then obtain c where c: "tracked_at t cf k = Some c"
      using counts_le_tracked [OF invs inv(1,3), of cf k] by auto
    note le = counts_le_info [OF Some c]
    have le: "tki_num_reads i \<le> tki_num_reads c" "tki_num_writes i \<le> tki_num_writes c"
      by (rule le; use inv(3) in \<open>simp add: counts_le_def\<close>)+
    show ?thesis
      using sub_info_counts [OF tracked_live [OF inv(1) c] le] Some c
      by (simp add: reads_of_def writes_of_def u(3))
  qed
  with u(1,2) show ?thesis by blast
qed

subsection \<open>Merge of counts\<close>

lemma merge_info_counts:
  assumes "unat (tki_num_reads c) + unat (tki_num_reads i) < 2 ^ 32"
    "unat (tki_num_writes c) + unat (tki_num_writes i) < 2 ^ 32" "live_info c"
  shows "\<exists>j. merge_info (Some c) (Some i) = Some j \<and> live_info j \<and>
    unat (tki_num_reads j) = unat (tki_num_reads c) + unat (tki_num_reads i) \<and>
    unat (tki_num_writes j) = unat (tki_num_writes c) + unat (tki_num_writes i)"
  using live_Merge [OF assms(3,1,2)] by (simp add: merge_info_def)

definition counts_fit :: "TrackedKeys \<Rightarrow> TrackedKeys \<Rightarrow> bool" where
  "counts_fit s t \<longleftrightarrow> (\<forall>cf k. reads_of s cf k + reads_of t cf k < 2 ^ 32 \<and>
                            writes_of s cf k + writes_of t cf k < 2 ^ 32)"

lemma merge_info_live_counts:
  assumes inv: "trk_inv s" "trk_inv t" "counts_fit s t"
  shows "(\<forall>j. merge_info (tracked_at s cf k) (tracked_at t cf k) = Some j \<longrightarrow> live_info j) \<and>
    (case merge_info (tracked_at s cf k) (tracked_at t cf k) of None \<Rightarrow> 0 | Some j \<Rightarrow> unat (tki_num_reads j))
      = reads_of s cf k + reads_of t cf k \<and>
    (case merge_info (tracked_at s cf k) (tracked_at t cf k) of None \<Rightarrow> 0 | Some j \<Rightarrow> unat (tki_num_writes j))
      = writes_of s cf k + writes_of t cf k"
proof (cases "tracked_at s cf k = None \<or> tracked_at t cf k = None")
  case True
  then show ?thesis
    using tracked_live [OF inv(1), of cf k] tracked_live [OF inv(2), of cf k]
    by (auto simp: reads_of_def writes_of_def merge_info_None)
next
  case False
  then obtain c i where ci: "tracked_at s cf k = Some c" "tracked_at t cf k = Some i" by auto
  have "reads_of s cf k + reads_of t cf k < 2 ^ 32" "writes_of s cf k + writes_of t cf k < 2 ^ 32"
    using inv(3) by (simp_all add: counts_fit_def)
  then have "\<exists>j. merge_info (Some c) (Some i) = Some j \<and> live_info j \<and>
    unat (tki_num_reads j) = unat (tki_num_reads c) + unat (tki_num_reads i) \<and>
    unat (tki_num_writes j) = unat (tki_num_writes c) + unat (tki_num_writes i)"
    using ci by (intro merge_info_counts tracked_live [OF inv(1) ci(1)]) (simp_all add: reads_of_def writes_of_def)
  with ci show ?thesis by (auto simp: reads_of_def writes_of_def)
qed

definition shape_ok :: "TrackedKeys \<Rightarrow> bool" where
  "shape_ok t \<longleftrightarrow> alist_ok t \<and> (\<forall>cf ks. map_of t cf = Some ks \<longrightarrow> alist_ok ks \<and> ks \<noteq> [])"

lemma trk_compact_shape:
  "trk_compact t \<longleftrightarrow> shape_ok t \<and> (\<forall>cf k i. tracked_at t cf k = Some i \<longrightarrow> live_info i)"
  unfolding trk_compact_def trk_inv_def keys_inv_def shape_ok_def tracked_at_def bind_eq_Some_conv
  by blast

lemma shape_ok_update: "shape_ok t \<Longrightarrow> alist_ok ks \<Longrightarrow> ks \<noteq> [] \<Longrightarrow> shape_ok (AList.update cf ks t)"
  by (simp add: shape_ok_def)

lemma Merge_keys_neq_Nil: "cur \<noteq> [] \<Longrightarrow> Merge_keys cur ks \<noteq> []"
  by (induction cur ks rule: Merge_keys.induct) (auto split: option.splits)

lemma shape_ok_Merge:
  "shape_ok s \<Longrightarrow> (\<And>cf ks. (cf, ks) \<in> set t \<Longrightarrow> alist_ok ks \<and> ks \<noteq> []) \<Longrightarrow> shape_ok (Tracker_Merge s t)"
proof (induction s t rule: Tracker_Merge.induct)
  case (2 s cf0 keys t)
  have keys: "alist_ok keys" "keys \<noteq> []" using 2(3) [of cf0 keys] by auto
  have "shape_ok (case map_of s cf0 of None \<Rightarrow> AList.update cf0 keys s
      | Some cur \<Rightarrow> AList.update cf0 (Merge_keys cur keys) s)"
  proof (cases "map_of s cf0")
    case (Some cur)
    then have "alist_ok cur" "cur \<noteq> []" using 2(2) by (simp_all add: shape_ok_def)
    with Some show ?thesis
      by (simp add: shape_ok_update 2(2) Merge_keys_ok Merge_keys_neq_Nil)
  qed (simp add: shape_ok_update 2(2) keys)
  from 2(1) [OF this] 2(3) show ?case by (metis Tracker_Merge.simps(2) list.set_intros(2))
qed simp

lemma Tracker_Merge_counts:
  assumes inv: "trk_compact s" "trk_compact t" "counts_fit s t"
  shows "trk_compact (Tracker_Merge s t)"
    and "reads_of (Tracker_Merge s t) cf k = reads_of s cf k + reads_of t cf k"
    and "writes_of (Tracker_Merge s t) cf k = writes_of s cf k + writes_of t cf k"
proof -
  have shape: "shape_ok s" "shape_ok t" and invs: "trk_inv s" "trk_inv t"
    using inv by (simp_all add: trk_compact_shape [symmetric] trk_compact_def)
      (simp_all add: trk_compact_shape flip: trk_compact_def)
  have at: "tracked_at (Tracker_Merge s t) cf k = merge_info (tracked_at s cf k) (tracked_at t cf k)"
    for cf k
    by (rule Tracker_Merge_at) (use shape(2) in \<open>auto simp: shape_ok_def\<close>)
  note counts = merge_info_live_counts [OF invs inv(3)]
  show "reads_of (Tracker_Merge s t) cf k = reads_of s cf k + reads_of t cf k"
    unfolding reads_of_def [of "Tracker_Merge s t"] at using counts [of cf k] by blast
  show "writes_of (Tracker_Merge s t) cf k = writes_of s cf k + writes_of t cf k"
    unfolding writes_of_def [of "Tracker_Merge s t"] at using counts [of cf k] by blast
  have "shape_ok (Tracker_Merge s t)"
    by (rule shape_ok_Merge [OF shape(1)]) (use shape(2) in \<open>auto simp: shape_ok_def\<close>)
  with counts show "trk_compact (Tracker_Merge s t)" unfolding trk_compact_shape at by blast
qed

subsection \<open>GetTrackedLocksSinceSavePoint\<close>

definition same_counts :: "TrackedKeyInfo option \<Rightarrow> TrackedKeyInfo option \<Rightarrow> bool" where
  "same_counts c i =
     (case (c, i) of
        (Some c, Some i) \<Rightarrow> tki_num_reads c = tki_num_reads i \<and> tki_num_writes c = tki_num_writes i
      | _ \<Rightarrow> False)"

lemma same_counts_None [simp]: "\<not> same_counts c None" "\<not> same_counts None i"
  by (simp_all add: same_counts_def split: option.split)

lemma tracked_Track_iff:
  "tracked_at (Track t r) cf k \<noteq> None \<longleftrightarrow>
     cf = plr_column_family_id r \<and> k = plr_key r \<or> tracked_at t cf k \<noteq> None"
  by (auto simp: tracked_at_Track)

lemma SinceSavePoint_keys_at:
  "alist_ok ks \<Longrightarrow> (\<And>k. map_of ks k \<noteq> None \<Longrightarrow> map_of cur k \<noteq> None) \<Longrightarrow>
    \<exists>u. SinceSavePoint_keys cf cur ks t = Some u \<and>
      (\<forall>cf' k. tracked_at u cf' k \<noteq> None \<longleftrightarrow>
         tracked_at t cf' k \<noteq> None \<or> cf' = cf \<and> same_counts (map_of cur k) (map_of ks k))"
proof (induction ks arbitrary: t)
  case (Cons p ks)
  obtain key i where p: "p = (key, i)" by force
  have fresh: "map_of ks key = None" using Cons.prems(1) by (simp add: p map_of_eq_None_iff)
  obtain c where c: "map_of cur key = Some c" using Cons.prems(2) [of key] by (auto simp: p)
  define t' where "t' = (if same_counts (Some c) (Some i)
      then Track t \<lparr>plr_column_family_id = cf, plr_key = key, plr_seq = tki_seq i,
                    plr_read_only = (tki_num_writes i = 0), plr_exclusive = tki_exclusive i\<rparr> else t)"
  have at': "tracked_at t' cf' k \<noteq> None \<longleftrightarrow> tracked_at t cf' k \<noteq> None \<or>
      cf' = cf \<and> k = key \<and> same_counts (Some c) (Some i)" for cf' k
    unfolding t'_def by (auto simp: tracked_at_Track)
  have step: "SinceSavePoint_keys cf cur (p # ks) t = SinceSavePoint_keys cf cur ks t'"
    by (simp add: p c t'_def same_counts_def Let_def)
  have "map_of cur k \<noteq> None" if "map_of ks k \<noteq> None" for k
    using Cons.prems(2) [of k] that by (cases "k = key") (simp_all add: p c)
  then obtain u where u: "SinceSavePoint_keys cf cur ks t' = Some u"
    "\<And>cf' k. tracked_at u cf' k \<noteq> None \<longleftrightarrow> tracked_at t' cf' k \<noteq> None \<or>
       cf' = cf \<and> same_counts (map_of cur k) (map_of ks k)"
    using Cons.IH [of t'] Cons.prems(1) by (auto simp: p)
  have "tracked_at u cf' k \<noteq> None \<longleftrightarrow> tracked_at t cf' k \<noteq> None \<or>
      cf' = cf \<and> same_counts (map_of cur k) (map_of (p # ks) k)" for cf' k
    unfolding u(2) at' using fresh c by (auto simp: p same_counts_def)
  with u(1) step show ?case by (intro exI [of _ u]) simp
qed (simp add: same_counts_def split: option.split)

lemma SinceSavePoint_cfs_at:
  "trk_compact s \<Longrightarrow> (\<And>cf k. tracked_at s cf k \<noteq> None \<Longrightarrow> tracked_at t cf k \<noteq> None) \<Longrightarrow>
    \<exists>u. SinceSavePoint_cfs t s r = Some u \<and>
      (\<forall>cf k. tracked_at u cf k \<noteq> None \<longleftrightarrow>
         tracked_at r cf k \<noteq> None \<or> same_counts (tracked_at t cf k) (tracked_at s cf k))"
proof (induction s arbitrary: r)
  case (Cons p s)
  obtain cf0 ks where p: "p = (cf0, ks)" by force
  have s: "keys_inv ks" "ks \<noteq> []" "map_of s cf0 = None" "trk_compact s"
    using Cons.prems(1) by (auto simp: p trk_compact_Cons)
  obtain cur where cur: "map_of t cf0 = Some cur"
    using Cons.prems(2) [of cf0 "fst (hd ks)"] s(2)
    by (cases ks; cases "map_of t cf0") (simp_all add: p tracked_at_Cons tracked_at_fresh split: prod.splits)
  have "map_of cur k \<noteq> None" if "map_of ks k \<noteq> None" for k
    using Cons.prems(2) [of cf0 k] that cur by (simp add: p tracked_at_def)
  then obtain r' where r': "SinceSavePoint_keys cf0 cur ks r = Some r'"
    "\<And>cf k. tracked_at r' cf k \<noteq> None \<longleftrightarrow> tracked_at r cf k \<noteq> None \<or>
       cf = cf0 \<and> same_counts (map_of cur k) (map_of ks k)"
    using SinceSavePoint_keys_at [of ks cur cf0 r] s(1) by (auto simp: keys_inv_def)
  have "tracked_at t cf k \<noteq> None" if "tracked_at s cf k \<noteq> None" for cf k
    using Cons.prems(2) [of cf k] that tracked_at_fresh [OF s(3), of k]
    by (cases "cf = cf0") (simp_all add: p tracked_at_Cons)
  then obtain u where u: "SinceSavePoint_cfs t s r' = Some u"
    "\<And>cf k. tracked_at u cf k \<noteq> None \<longleftrightarrow> tracked_at r' cf k \<noteq> None \<or>
       same_counts (tracked_at t cf k) (tracked_at s cf k)"
    using Cons.IH [of r'] s(4) by auto
  have "tracked_at u cf k \<noteq> None \<longleftrightarrow> tracked_at r cf k \<noteq> None \<or>
      same_counts (tracked_at t cf k) (tracked_at (p # s) cf k)" for cf k
    unfolding u(2) r'(2) using tracked_at_fresh [OF s(3), of k] tracked_at_cf [OF cur, of k]
    by (auto simp: p tracked_at_Cons)
  with u(1) r'(1) show ?case by (intro exI [of _ u]) (simp add: p cur)
qed (simp add: same_counts_def tracked_at_def split: option.split)

lemma same_counts_iff:
  assumes "trk_inv t" "trk_inv s" "counts_le s t"
  shows "same_counts (tracked_at t cf k) (tracked_at s cf k) \<longleftrightarrow>
    0 < reads_of s cf k + writes_of s cf k \<and>
    reads_of t cf k = reads_of s cf k \<and> writes_of t cf k = writes_of s cf k"
proof (cases "tracked_at s cf k")
  case None
  then show ?thesis
    by (simp add: same_counts_def reads_of_def writes_of_def split: option.split)
next
  case (Some i)
  then obtain c where c: "tracked_at t cf k = Some c"
    using counts_le_tracked [OF assms(2,1,3), of cf k] by auto
  have "0 < reads_of s cf k + writes_of s cf k"
    using tracked_counts [OF assms(2), of cf k] Some by simp
  then show ?thesis
    using Some c by (simp add: same_counts_def reads_of_def writes_of_def word_unat_eq_iff)
qed

lemma GetTrackedLocksSinceSavePoint_counts:
  assumes "trk_inv t" "trk_compact s" "counts_le s t"
  shows "\<exists>u. GetTrackedLocksSinceSavePoint t s = Some u \<and>
    (\<forall>cf k. tracked_at u cf k \<noteq> None \<longleftrightarrow>
       0 < reads_of s cf k + writes_of s cf k \<and>
       reads_of t cf k = reads_of s cf k \<and> writes_of t cf k = writes_of s cf k)"
proof -
  have invs: "trk_inv s" using assms(2) by (simp add: trk_compact_def)
  have "tracked_at PointLockTracker_new cf k = None" for cf k
    by (simp add: PointLockTracker_new_def tracked_at_def)
  then show ?thesis
    using SinceSavePoint_cfs_at [OF assms(2) counts_le_tracked [OF invs assms(1,3)], of PointLockTracker_new]
    by (simp add: GetTrackedLocksSinceSavePoint_def same_counts_iff [OF assms(1) invs assms(3)])
qed

lemma shape_ok_Track: "shape_ok t \<Longrightarrow> shape_ok (Track t r)"
  unfolding Track_eq by (rule shape_ok_update) (auto simp: shape_ok_def split: option.splits)

lemma shape_ok_Since_keys: "SinceSavePoint_keys cf cur ks t = Some u \<Longrightarrow> shape_ok t \<Longrightarrow> shape_ok u"
  by (induction cf cur ks t rule: SinceSavePoint_keys.induct)
    (auto simp: Let_def shape_ok_Track split: option.splits if_splits)

lemma shape_ok_Since: "GetTrackedLocksSinceSavePoint t s = Some u \<Longrightarrow> shape_ok u"
proof -
  have "SinceSavePoint_cfs t s r = Some u \<Longrightarrow> shape_ok r \<Longrightarrow> shape_ok u" for r
    by (induction t s r rule: SinceSavePoint_cfs.induct)
      (auto dest: shape_ok_Since_keys split: option.splits)
  moreover have "shape_ok PointLockTracker_new" by (simp add: shape_ok_def PointLockTracker_new_def)
  ultimately show "GetTrackedLocksSinceSavePoint t s = Some u \<Longrightarrow> shape_ok u"
    by (simp add: GetTrackedLocksSinceSavePoint_def)
qed

subsection \<open>Untrack\<close>

definition untrack_info :: "TrackedKeyInfo \<Rightarrow> bool \<Rightarrow> TrackedKeyInfo" where
  "untrack_info i read_only =
     (if read_only then i\<lparr>tki_num_reads := if tki_num_reads i > 0 then tki_num_reads i - 1 else 0\<rparr>
      else i\<lparr>tki_num_writes := if tki_num_writes i > 0 then tki_num_writes i - 1 else 0\<rparr>)"

lemma untrack_info_counts:
  "unat (tki_num_reads (untrack_info i ro)) = unat (tki_num_reads i) - (if ro then 1 else 0)"
  "unat (tki_num_writes (untrack_info i ro)) = unat (tki_num_writes i) - (if ro then 0 else 1)"
  by (auto simp: untrack_info_def word_gt_0 unat_sub word_le_nat_alt unat_gt_0 Suc_le_eq)

lemma Untrack_eq:
  assumes "map_of t (plr_column_family_id r) = Some keys" "map_of keys (plr_key r) = Some i"
  defines "j \<equiv> untrack_info i (plr_read_only r)"
  defines "keys' \<equiv> (if live_info j then AList.update (plr_key r) j keys else AList.delete (plr_key r) keys)"
  shows "snd (Untrack t r) =
      (if \<not> live_info j \<and> keys' = [] then AList.delete (plr_column_family_id r) t
       else AList.update (plr_column_family_id r) keys' t)"
    and "fst (Untrack t r) = REMOVED \<longleftrightarrow> \<not> live_info j"
proof -
  have j: "(if plr_read_only r
      then if tki_num_reads i > 0 then (True, i\<lparr>tki_num_reads := tki_num_reads i - 1\<rparr>) else (False, i)
      else if tki_num_writes i > 0 then (True, i\<lparr>tki_num_writes := tki_num_writes i - 1\<rparr>) else (False, i))
      = (if plr_read_only r then tki_num_reads i > 0 else tki_num_writes i > 0, j)"
    by (cases i) (auto simp: j_def untrack_info_def word_gt_0)
  show "snd (Untrack t r) =
      (if \<not> live_info j \<and> keys' = [] then AList.delete (plr_column_family_id r) t
       else AList.update (plr_column_family_id r) keys' t)"
    unfolding Untrack_def assms(1,2) option.case j
    by (simp add: Let_def keys'_def live_info_def)
  show "fst (Untrack t r) = REMOVED \<longleftrightarrow> \<not> live_info j"
    unfolding Untrack_def assms(1,2) option.case j
    by (simp add: Let_def live_info_def)
qed

lemma Untrack_absent: "tracked_at t (plr_column_family_id r) (plr_key r) = None \<Longrightarrow> Untrack t r = (NOT_TRACKED, t)"
  by (auto simp: Untrack_def tracked_at_def split: option.splits)

lemma tracked_at_delete:
  "tracked_at (AList.delete cf t) cf' k = (if cf' = cf then None else tracked_at t cf' k)"
  by (simp add: tracked_at_def)

lemma Untrack_at:
  "tracked_at (snd (Untrack t r)) cf k =
     (if cf = plr_column_family_id r \<and> k = plr_key r
      then Option.bind (tracked_at t cf k) (\<lambda>i. let j = untrack_info i (plr_read_only r)
             in if live_info j then Some j else None)
      else tracked_at t cf k)"
proof (cases "tracked_at t (plr_column_family_id r) (plr_key r)")
  case None
  then show ?thesis by (auto simp: Untrack_absent)
next
  case (Some i)
  then obtain keys where keys: "map_of t (plr_column_family_id r) = Some keys"
    "map_of keys (plr_key r) = Some i" by (auto simp: tracked_at_def bind_eq_Some_conv)
  define j where "j = untrack_info i (plr_read_only r)"
  define keys' where "keys' = (if live_info j then AList.update (plr_key r) j keys
      else AList.delete (plr_key r) keys)"
  have at: "map_of keys' k = (if k = plr_key r then if live_info j then Some j else None
      else map_of keys k)" for k by (simp add: keys'_def)
  have "tracked_at (snd (Untrack t r)) cf k =
      (if cf = plr_column_family_id r then map_of keys' k else tracked_at t cf k)"
    unfolding Untrack_eq(1) [OF keys] j_def [symmetric] keys'_def [symmetric]
    by (auto simp: tracked_at_update tracked_at_delete)
  with Some show ?thesis by (simp add: at Let_def tracked_at_cf [OF keys(1)] flip: j_def)
qed

definition untrack_option :: "TrackedKeyInfo \<Rightarrow> bool \<Rightarrow> TrackedKeyInfo option" where
  "untrack_option i ro = (let j = untrack_info i ro in if live_info j then Some j else None)"

lemma untrack_option_counts:
  "(case untrack_option i ro of None \<Rightarrow> 0 | Some j \<Rightarrow> unat (tki_num_reads j)) =
     unat (tki_num_reads i) - (if ro then 1 else 0)"
  "(case untrack_option i ro of None \<Rightarrow> 0 | Some j \<Rightarrow> unat (tki_num_writes j)) =
     unat (tki_num_writes i) - (if ro then 0 else 1)"
proof -
  have "unat (tki_num_reads j) = 0 \<and> unat (tki_num_writes j) = 0" if "\<not> live_info j" for j
    using that by (simp add: live_info_def)
  note dead = this [of "untrack_info i ro"]
  show "(case untrack_option i ro of None \<Rightarrow> 0 | Some j \<Rightarrow> unat (tki_num_reads j)) =
      unat (tki_num_reads i) - (if ro then 1 else 0)"
    and "(case untrack_option i ro of None \<Rightarrow> 0 | Some j \<Rightarrow> unat (tki_num_writes j)) =
      unat (tki_num_writes i) - (if ro then 0 else 1)"
    using dead untrack_info_counts [of i ro]
    by (cases "live_info (untrack_info i ro)"; simp add: untrack_option_def Let_def)+
qed

lemma Untrack_counts:
  "reads_of (snd (Untrack t r)) cf k = reads_of t cf k -
     (if cf = plr_column_family_id r \<and> k = plr_key r \<and> plr_read_only r then 1 else 0)" (is ?reads)
  "writes_of (snd (Untrack t r)) cf k = writes_of t cf k -
     (if cf = plr_column_family_id r \<and> k = plr_key r \<and> \<not> plr_read_only r then 1 else 0)" (is ?writes)
proof -
  note at = Untrack_at [folded untrack_option_def]
  show ?reads
    by (cases "cf = plr_column_family_id r"; cases "k = plr_key r"; cases "tracked_at t cf k")
      (simp_all add: reads_of_def at untrack_option_counts)
  show ?writes
    by (cases "cf = plr_column_family_id r"; cases "k = plr_key r"; cases "tracked_at t cf k")
      (simp_all add: writes_of_def at untrack_option_counts)
qed

lemma Untrack_inv: "trk_inv t \<Longrightarrow> trk_inv (snd (Untrack t r))"
proof (cases "tracked_at t (plr_column_family_id r) (plr_key r)")
  case (Some i)
  assume inv: "trk_inv t"
  from Some obtain keys where keys: "map_of t (plr_column_family_id r) = Some keys"
    "map_of keys (plr_key r) = Some i" by (auto simp: tracked_at_def bind_eq_Some_conv)
  have "keys_inv keys" using inv keys(1) unfolding trk_inv_def by blast
  then have "trk_inv (AList.update (plr_column_family_id r) (AList.delete (plr_key r) keys) t)"
    "live_info j \<Longrightarrow> trk_inv (AList.update (plr_column_family_id r) (AList.update (plr_key r) j keys) t)" for j
    using inv by (simp_all add: trk_inv_update keys_inv_delete keys_inv_update)
  moreover have "trk_inv (AList.delete (plr_column_family_id r) t)" using inv by (simp add: trk_inv_def)
  ultimately show ?thesis unfolding Untrack_eq(1) [OF keys] by simp
qed (simp add: Untrack_absent)

lemma Untrack_REMOVED:
  assumes "trk_inv t"
  shows "fst (Untrack t r) = REMOVED \<longleftrightarrow>
    tracked_at t (plr_column_family_id r) (plr_key r) \<noteq> None \<and>
    tracked_at (snd (Untrack t r)) (plr_column_family_id r) (plr_key r) = None"
proof (cases "tracked_at t (plr_column_family_id r) (plr_key r)")
  case (Some i)
  then obtain keys where keys: "map_of t (plr_column_family_id r) = Some keys"
    "map_of keys (plr_key r) = Some i" by (auto simp: tracked_at_def bind_eq_Some_conv)
  show ?thesis using Some unfolding Untrack_eq(2) [OF keys] by (simp add: Untrack_at Let_def)
qed (simp add: Untrack_absent)

lemma Untrack_compact: "trk_compact t \<Longrightarrow> trk_compact (snd (Untrack t r))"
proof (cases "tracked_at t (plr_column_family_id r) (plr_key r)")
  case (Some i)
  assume compact: "trk_compact t"
  from Some obtain keys where keys: "map_of t (plr_column_family_id r) = Some keys"
    "map_of keys (plr_key r) = Some i" by (auto simp: tracked_at_def bind_eq_Some_conv)
  have inv: "trk_inv (snd (Untrack t r))" using compact by (simp add: trk_compact_def Untrack_inv)
  have "ks \<noteq> []" if "map_of (snd (Untrack t r)) cf = Some ks" for cf ks
    using that compact unfolding Untrack_eq(1) [OF keys] by (auto simp: trk_compact_def split: if_splits)
  with inv show ?thesis by (simp add: trk_compact_def)
qed (simp add: Untrack_absent)

lemma Untrack_read_tracked:
  assumes "trk_inv t" "plr_read_only r"
  shows "fst (Untrack t r) \<noteq> NOT_TRACKED \<longleftrightarrow> 0 < reads_of t (plr_column_family_id r) (plr_key r)"
proof (cases "tracked_at t (plr_column_family_id r) (plr_key r)")
  case (Some i)
  then obtain keys where keys: "map_of t (plr_column_family_id r) = Some keys"
    "map_of keys (plr_key r) = Some i" by (auto simp: tracked_at_def bind_eq_Some_conv)
  have "live_info i" by (rule tracked_live [OF assms(1) Some])
  then show ?thesis
    using assms(2) Some by (auto simp: Untrack_def keys reads_of_def Let_def live_info_def word_gt_0 unat_pos_iff)
qed (simp add: Untrack_absent reads_of_def)

section \<open>The contract of a tracker\<close>

definition nreads :: "PointLockRequest list \<Rightarrow> ColumnFamilyId \<Rightarrow> string \<Rightarrow> nat" where
  "nreads rs cf k =
     length (filter (\<lambda>r. cf = plr_column_family_id r \<and> k = plr_key r \<and> plr_read_only r) rs)"

definition nwrites :: "PointLockRequest list \<Rightarrow> ColumnFamilyId \<Rightarrow> string \<Rightarrow> nat" where
  "nwrites rs cf k =
     length (filter (\<lambda>r. cf = plr_column_family_id r \<and> k = plr_key r \<and> \<not> plr_read_only r) rs)"

text \<open>
  A transaction tracks every request on its own tracker and on the tracker of its innermost save
  point. The laws below are what it relies on: \<open>reads\<close> and \<open>writes\<close> count requests, \<open>subtract\<close> takes
  the counts of a save point off, \<open>since\<close> names the keys all of whose requests are the save point's.
\<close>

locale point_tracker =
  fixes new :: 't
    and track :: "'t \<Rightarrow> PointLockRequest \<Rightarrow> 't"
    and merge :: "'t \<Rightarrow> 't \<Rightarrow> 't"
    and subtract :: "'t \<Rightarrow> 't \<Rightarrow> 't option"
    and since :: "'t \<Rightarrow> 't \<Rightarrow> 't option"
    and tracked :: "'t \<Rightarrow> ColumnFamilyId \<Rightarrow> string \<Rightarrow> bool"
    and reads :: "'t \<Rightarrow> ColumnFamilyId \<Rightarrow> string \<Rightarrow> nat"
    and writes :: "'t \<Rightarrow> ColumnFamilyId \<Rightarrow> string \<Rightarrow> nat"
    and inv :: "'t \<Rightarrow> bool"
    and compact :: "'t \<Rightarrow> bool"
    and room :: nat
  assumes compact_inv: "compact t \<Longrightarrow> inv t"
    and new_compact: "compact new"
    and new_reads: "reads new cf k = 0"
    and new_writes: "writes new cf k = 0"
    and tracked_iff: "inv t \<Longrightarrow> tracked t cf k \<longleftrightarrow> 0 < reads t cf k + writes t cf k"
    and track_counts: "(\<And>cf k. reads t cf k + 1 < room \<and> writes t cf k + 1 < room) \<Longrightarrow>
      (inv t \<longrightarrow> inv (track t r)) \<and> (compact t \<longrightarrow> compact (track t r)) \<and>
      (\<forall>cf k. reads (track t r) cf k = reads t cf k +
          (if cf = plr_column_family_id r \<and> k = plr_key r \<and> plr_read_only r then 1 else 0)) \<and>
      (\<forall>cf k. writes (track t r) cf k = writes t cf k +
          (if cf = plr_column_family_id r \<and> k = plr_key r \<and> \<not> plr_read_only r then 1 else 0))"
    and merge_counts: "compact s \<Longrightarrow> compact t \<Longrightarrow>
      (\<And>cf k. reads s cf k + reads t cf k < room \<and> writes s cf k + writes t cf k < room) \<Longrightarrow>
      compact (merge s t) \<and> (\<forall>cf k. reads (merge s t) cf k = reads s cf k + reads t cf k) \<and>
      (\<forall>cf k. writes (merge s t) cf k = writes s cf k + writes t cf k)"
    and subtract_counts: "inv t \<Longrightarrow> compact s \<Longrightarrow>
      (\<And>cf k. reads s cf k \<le> reads t cf k \<and> writes s cf k \<le> writes t cf k) \<Longrightarrow>
      \<exists>u. subtract t s = Some u \<and> inv u \<and>
        (\<forall>cf k. reads u cf k = reads t cf k - reads s cf k \<and>
                writes u cf k = writes t cf k - writes s cf k)"
    and since_counts: "inv t \<Longrightarrow> compact s \<Longrightarrow>
      (\<And>cf k. reads s cf k \<le> reads t cf k \<and> writes s cf k \<le> writes t cf k) \<Longrightarrow>
      \<exists>u. since t s = Some u \<and>
        (\<forall>cf k. tracked u cf k \<longleftrightarrow> 0 < reads s cf k + writes s cf k \<and>
           reads t cf k = reads s cf k \<and> writes t cf k = writes s cf k)"
begin

lemma nreads_append:
  "nreads (rs @ rs') cf k = nreads rs cf k + nreads rs' cf k"
  "nwrites (rs @ rs') cf k = nwrites rs cf k + nwrites rs' cf k"
  by (simp_all add: nreads_def nwrites_def)

lemma nreads_le: "nreads rs cf k \<le> length rs" "nwrites rs cf k \<le> length rs"
  by (simp_all add: nreads_def nwrites_def)

lemma foldl_track:
  assumes "\<And>cf k. reads t cf k + length rs < room \<and> writes t cf k + length rs < room"
  shows "(inv t \<longrightarrow> inv (foldl track t rs)) \<and> (compact t \<longrightarrow> compact (foldl track t rs)) \<and>
    (\<forall>cf k. reads (foldl track t rs) cf k = reads t cf k + nreads rs cf k) \<and>
    (\<forall>cf k. writes (foldl track t rs) cf k = writes t cf k + nwrites rs cf k)"
  using assms
proof (induction rs arbitrary: t)
  case (Cons r rs)
  have "reads t cf k + 1 < room \<and> writes t cf k + 1 < room" for cf k
    using Cons.prems [of cf k] by simp
  note tr = track_counts [of t r, OF this]
  have "reads (track t r) cf k + length rs < room \<and> writes (track t r) cf k + length rs < room" for cf k
    using Cons.prems [of cf k] tr by (cases "plr_read_only r") auto
  from Cons.IH [OF this] tr show ?case by (auto simp: nreads_def nwrites_def)
qed (simp add: nreads_def nwrites_def)

text \<open>Rolling back to a save point after the requests \<open>rs\<close>, however many of them there were.\<close>

lemma rollback_to_save_point:
  assumes "inv t" "compact s"
    and sp: "\<And>cf k. reads s cf k = nreads rs cf k \<and> writes s cf k = nwrites rs cf k"
    and tot: "\<And>cf k. reads t cf k = reads t0 cf k + nreads rs cf k \<and> writes t cf k = writes t0 cf k + nwrites rs cf k"
    and t0: "inv t0"
  shows "(\<exists>u. subtract t s = Some u \<and> inv u \<and>
      (\<forall>cf k. reads u cf k = reads t0 cf k \<and> writes u cf k = writes t0 cf k)) \<and>
    (\<exists>v. since t s = Some v \<and>
      (\<forall>cf k. tracked v cf k \<longleftrightarrow> tracked t cf k \<and> \<not> tracked t0 cf k))"
proof -
  have le: "reads s cf k \<le> reads t cf k \<and> writes s cf k \<le> writes t cf k" for cf k
    using sp [of cf k] tot [of cf k] by simp
  obtain u where u: "subtract t s = Some u" "inv u"
    "\<And>cf k. reads u cf k = reads t cf k - reads s cf k \<and> writes u cf k = writes t cf k - writes s cf k"
    using subtract_counts [OF assms(1,2) le] by blast
  obtain v where v: "since t s = Some v"
    "\<And>cf k. tracked v cf k \<longleftrightarrow> 0 < reads s cf k + writes s cf k \<and>
       reads t cf k = reads s cf k \<and> writes t cf k = writes s cf k"
    using since_counts [OF assms(1,2) le] by blast
  have "reads u cf k = reads t0 cf k \<and> writes u cf k = writes t0 cf k" for cf k
    using u(3) [of cf k] sp [of cf k] tot [of cf k] by simp
  moreover have "tracked v cf k \<longleftrightarrow> tracked t cf k \<and> \<not> tracked t0 cf k" for cf k
    unfolding v(2) tracked_iff [OF t0] tracked_iff [OF assms(1)]
    using sp [of cf k] tot [of cf k] by auto
  ultimately show ?thesis using u(1,2) v(1) by blast
qed

lemma save_point_requests:
  assumes t0: "inv t0" "\<And>cf k. reads t0 cf k + length rs < room \<and> writes t0 cf k + length rs < room"
  shows "(\<exists>u. subtract (foldl track t0 rs) (foldl track new rs) = Some u \<and> inv u \<and>
      (\<forall>cf k. reads u cf k = reads t0 cf k \<and> writes u cf k = writes t0 cf k)) \<and>
    (\<exists>v. since (foldl track t0 rs) (foldl track new rs) = Some v \<and>
      (\<forall>cf k. tracked v cf k \<longleftrightarrow> tracked (foldl track t0 rs) cf k \<and> \<not> tracked t0 cf k))"
proof -
  note tot = foldl_track [of t0 rs, OF t0(2)]
  have "reads new cf k + length rs < room \<and> writes new cf k + length rs < room" for cf k
    using t0(2) [of cf k] by (simp add: new_reads new_writes)
  note sp = foldl_track [of new rs, OF this]
  show ?thesis
    by (rule rollback_to_save_point [where rs = rs])
      (use tot sp t0(1) new_compact in \<open>simp_all only: new_reads new_writes add_0\<close>)
qed

text \<open>
  Two nested save points: popping the inner one merges its tracker into the outer one's, and rolling
  back to the outer one then undoes the requests of both.
\<close>

lemma popped_save_point_requests:
  assumes t0: "inv t0"
    "\<And>cf k. reads t0 cf k + length (rs @ rs') < room \<and> writes t0 cf k + length (rs @ rs') < room"
  shows "(\<exists>u. subtract (foldl track t0 (rs @ rs')) (merge (foldl track new rs) (foldl track new rs')) = Some u \<and> inv u \<and>
      (\<forall>cf k. reads u cf k = reads t0 cf k \<and> writes u cf k = writes t0 cf k)) \<and>
    (\<exists>v. since (foldl track t0 (rs @ rs')) (merge (foldl track new rs) (foldl track new rs')) = Some v \<and>
      (\<forall>cf k. tracked v cf k \<longleftrightarrow> tracked (foldl track t0 (rs @ rs')) cf k \<and> \<not> tracked t0 cf k))"
proof -
  note tot = foldl_track [of t0 "rs @ rs'", OF t0(2)]
  have b: "reads new cf k + length xs < room \<and> writes new cf k + length xs < room"
    if "length xs \<le> length (rs @ rs')" for xs :: "PointLockRequest list" and cf k
    using t0(2) [of cf k] that by (simp add: new_reads new_writes)
  have sp: "compact (foldl track new rs) \<and>
      (\<forall>cf k. reads (foldl track new rs) cf k = nreads rs cf k \<and> writes (foldl track new rs) cf k = nwrites rs cf k)"
    using foldl_track [of new rs, OF b] new_compact by (simp add: new_reads new_writes)
  have sp': "compact (foldl track new rs') \<and>
      (\<forall>cf k. reads (foldl track new rs') cf k = nreads rs' cf k \<and> writes (foldl track new rs') cf k = nwrites rs' cf k)"
    using foldl_track [of new rs', OF b] new_compact by (simp add: new_reads new_writes)
  have "reads (foldl track new rs) cf k + reads (foldl track new rs') cf k < room \<and>
      writes (foldl track new rs) cf k + writes (foldl track new rs') cf k < room" for cf k
    using t0(2) [of cf k] sp sp' nreads_le [of rs cf k] nreads_le [of rs' cf k] by simp
  note m = merge_counts [OF conjunct1 [OF sp] conjunct1 [OF sp'] this]
  show ?thesis
    by (rule rollback_to_save_point [where rs = "rs @ rs'"])
      (use tot m sp sp' t0(1) nreads_append in \<open>simp_all only:\<close>)
qed

end

interpretation lt: point_tracker PointLockTracker_new Track Tracker_Merge Subtract
  GetTrackedLocksSinceSavePoint "\<lambda>t cf k. tracked_at t cf k \<noteq> None" reads_of writes_of trk_inv
  trk_compact "2 ^ 32"
proof
  fix s t :: TrackedKeys and cf k r
  show "trk_compact t \<Longrightarrow> trk_inv t" by (simp add: trk_compact_def)
  show "trk_compact PointLockTracker_new"
    by (simp add: trk_compact_def trk_inv_def PointLockTracker_new_def)
  show "reads_of PointLockTracker_new cf k = 0" "writes_of PointLockTracker_new cf k = 0"
    by (simp_all add: reads_of_def writes_of_def PointLockTracker_new_def tracked_at_def)
  show "trk_inv t \<Longrightarrow> tracked_at t cf k \<noteq> None \<longleftrightarrow> 0 < reads_of t cf k + writes_of t cf k"
    by (rule tracked_counts)
  assume "trk_inv t" "trk_compact s"
    "\<And>cf k. reads_of s cf k \<le> reads_of t cf k \<and> writes_of s cf k \<le> writes_of t cf k"
  then show "\<exists>u. Subtract t s = Some u \<and> trk_inv u \<and>
      (\<forall>cf k. reads_of u cf k = reads_of t cf k - reads_of s cf k \<and>
              writes_of u cf k = writes_of t cf k - writes_of s cf k)"
    and "\<exists>u. GetTrackedLocksSinceSavePoint t s = Some u \<and>
      (\<forall>cf k. tracked_at u cf k \<noteq> None \<longleftrightarrow>
         0 < reads_of s cf k + writes_of s cf k \<and>
         reads_of t cf k = reads_of s cf k \<and> writes_of t cf k = writes_of s cf k)"
    using Subtract_counts [of t s] GetTrackedLocksSinceSavePoint_counts [of t s]
    by (simp_all only: counts_le_def simp_thms)
qed (simp_all add: trk_inv_Track trk_compact_Track reads_of_Track writes_of_Track room_for_def
    Tracker_Merge_counts counts_fit_def)

section \<open>Properties\<close>

text \<open>
  C23: Rolling back to a save point is exact. Let \<open>t0\<close> be the tracker of a transaction when it sets a
  save point and let it then track any requests, on its own tracker and on the save point's. Then
  \<open>Subtract\<close> succeeds and gives back the read and write counts of \<open>t0\<close> for every key, and
  \<open>GetTrackedLocksSinceSavePoint\<close> succeeds and names exactly the keys tracked now and not in \<open>t0\<close>: the
  keys whose locks have to be released. The counters being 32 bits wide, the requests are fewer than
  fit.
\<close>

theorem save_point_rollback_exact:
  assumes "trk_inv t0"
    and "\<And>cf k. reads_of t0 cf k + length rs < 2 ^ 32 \<and> writes_of t0 cf k + length rs < 2 ^ 32"
  shows "(\<exists>u. Subtract (foldl Track t0 rs) (foldl Track PointLockTracker_new rs) = Some u \<and> trk_inv u \<and>
      (\<forall>cf k. reads_of u cf k = reads_of t0 cf k \<and> writes_of u cf k = writes_of t0 cf k)) \<and>
    (\<exists>v. GetTrackedLocksSinceSavePoint (foldl Track t0 rs) (foldl Track PointLockTracker_new rs) = Some v \<and>
      (\<forall>cf k. tracked_at v cf k \<noteq> None \<longleftrightarrow>
         tracked_at (foldl Track t0 rs) cf k \<noteq> None \<and> \<not> tracked_at t0 cf k \<noteq> None))"
  using assms by (rule lt.save_point_requests)

theorem save_point_rollback_exact_witness:
  "\<exists>u. Subtract
      (foldl Track (Track [] \<lparr>plr_column_family_id = 0, plr_key = ''a'', plr_seq = 5, plr_read_only = True, plr_exclusive = False\<rparr>)
        [\<lparr>plr_column_family_id = 0, plr_key = ''a'', plr_seq = 7, plr_read_only = False, plr_exclusive = True\<rparr>,
         \<lparr>plr_column_family_id = 3, plr_key = ''b'', plr_seq = 8, plr_read_only = False, plr_exclusive = True\<rparr>])
      (foldl Track PointLockTracker_new
        [\<lparr>plr_column_family_id = 0, plr_key = ''a'', plr_seq = 7, plr_read_only = False, plr_exclusive = True\<rparr>,
         \<lparr>plr_column_family_id = 3, plr_key = ''b'', plr_seq = 8, plr_read_only = False, plr_exclusive = True\<rparr>]) = Some u \<and>
      reads_of u 0 ''a'' = 1 \<and> writes_of u 0 ''a'' = 0 \<and> writes_of u 3 ''b'' = 0"
proof -
  let ?r0 = "\<lparr>plr_column_family_id = 0, plr_key = ''a'', plr_seq = 5, plr_read_only = True, plr_exclusive = False\<rparr>"
  let ?rs = "[\<lparr>plr_column_family_id = 0, plr_key = ''a'', plr_seq = 7, plr_read_only = False, plr_exclusive = True\<rparr>,
         \<lparr>plr_column_family_id = 3, plr_key = ''b'', plr_seq = 8, plr_read_only = False, plr_exclusive = True\<rparr>]"
  have room: "room_for [] 1" and inv: "trk_inv []"
    by (simp_all add: room_for_def reads_of_def writes_of_def tracked_at_def trk_inv_def)
  have counts: "reads_of (Track [] ?r0) cf k = (if cf = 0 \<and> k = ''a'' then 1 else 0)"
    "writes_of (Track [] ?r0) cf k = 0" for cf k
    by (simp_all add: reads_of_Track [OF room] writes_of_Track [OF room])
      (simp_all add: reads_of_def writes_of_def tracked_at_def)
  have "trk_inv (Track [] ?r0)" by (rule trk_inv_Track [OF inv room])
  moreover have "reads_of (Track [] ?r0) cf k + length ?rs < 2 ^ 32 \<and>
      writes_of (Track [] ?r0) cf k + length ?rs < 2 ^ 32" for cf k
    by (simp add: counts)
  ultimately obtain u where "Subtract (foldl Track (Track [] ?r0) ?rs) (foldl Track PointLockTracker_new ?rs) = Some u"
    "\<forall>cf k. reads_of u cf k = reads_of (Track [] ?r0) cf k \<and> writes_of u cf k = writes_of (Track [] ?r0) cf k"
    using save_point_rollback_exact by metis
  then show ?thesis by (intro exI [of _ u]) (simp only: counts simp_thms if_True)
qed

text \<open>
  Popping a save point keeps rollback exact. After the requests \<open>rs\<close> under an outer save point
  and \<open>rs'\<close> under an inner one, \<open>PopSavePoint\<close> merges the inner tracker into the outer one. Rolling back
  to the outer save point then restores the counts of \<open>t0\<close> and releases exactly the keys that neither
  \<open>t0\<close> nor anything before it had tracked.
\<close>

theorem popped_save_point_rollback_exact:
  assumes "trk_inv t0"
    and "\<And>cf k. reads_of t0 cf k + length (rs @ rs') < 2 ^ 32 \<and> writes_of t0 cf k + length (rs @ rs') < 2 ^ 32"
  shows "(\<exists>u. Subtract (foldl Track t0 (rs @ rs'))
        (Tracker_Merge (foldl Track PointLockTracker_new rs) (foldl Track PointLockTracker_new rs')) = Some u \<and> trk_inv u \<and>
      (\<forall>cf k. reads_of u cf k = reads_of t0 cf k \<and> writes_of u cf k = writes_of t0 cf k)) \<and>
    (\<exists>v. GetTrackedLocksSinceSavePoint (foldl Track t0 (rs @ rs'))
        (Tracker_Merge (foldl Track PointLockTracker_new rs) (foldl Track PointLockTracker_new rs')) = Some v \<and>
      (\<forall>cf k. tracked_at v cf k \<noteq> None \<longleftrightarrow>
         tracked_at (foldl Track t0 (rs @ rs')) cf k \<noteq> None \<and> \<not> tracked_at t0 cf k \<noteq> None))"
  using assms by (rule lt.popped_save_point_requests)

theorem popped_save_point_rollback_exact_witness:
  "\<exists>u. Subtract
      (foldl Track PointLockTracker_new
        ([\<lparr>plr_column_family_id = 0, plr_key = ''a'', plr_seq = 7, plr_read_only = False, plr_exclusive = True\<rparr>] @
         [\<lparr>plr_column_family_id = 0, plr_key = ''a'', plr_seq = 8, plr_read_only = True, plr_exclusive = False\<rparr>]))
      (Tracker_Merge
        (foldl Track PointLockTracker_new
          [\<lparr>plr_column_family_id = 0, plr_key = ''a'', plr_seq = 7, plr_read_only = False, plr_exclusive = True\<rparr>])
        (foldl Track PointLockTracker_new
          [\<lparr>plr_column_family_id = 0, plr_key = ''a'', plr_seq = 8, plr_read_only = True, plr_exclusive = False\<rparr>])) = Some u \<and>
      writes_of u 0 ''a'' = 0 \<and> reads_of u 0 ''a'' = 0"
proof -
  have counts: "reads_of PointLockTracker_new cf k = 0" "writes_of PointLockTracker_new cf k = 0" for cf k
    by (simp_all add: lt.new_reads lt.new_writes)
  have "trk_inv PointLockTracker_new" by (rule lt.compact_inv [OF lt.new_compact])
  moreover have "reads_of PointLockTracker_new cf k + length (rs @ rs') < 2 ^ 32 \<and>
      writes_of PointLockTracker_new cf k + length (rs @ rs') < 2 ^ 32"
    if "length (rs @ rs') = 2" for cf k and rs rs' :: "PointLockRequest list"
    unfolding counts that by simp
  ultimately show ?thesis
    using popped_save_point_rollback_exact [of PointLockTracker_new
      "[\<lparr>plr_column_family_id = 0, plr_key = ''a'', plr_seq = 7, plr_read_only = False, plr_exclusive = True\<rparr>]"
      "[\<lparr>plr_column_family_id = 0, plr_key = ''a'', plr_seq = 8, plr_read_only = True, plr_exclusive = False\<rparr>]"]
    unfolding counts by fastforce
qed

text \<open>
  C24: \<open>Untrack\<close> undoes \<open>Track\<close>. Undoing a request just tracked gives back every count, keeps the
  tracker's invariant, and reports \<open>REMOVED\<close>, on which the transaction unlocks the key, exactly if
  the key was not tracked before the request.
\<close>

theorem Untrack_undoes_Track:
  assumes "trk_inv t" "room_for t 1"
  shows "trk_inv (snd (Untrack (Track t r) r)) \<and>
    (\<forall>cf k. reads_of (snd (Untrack (Track t r) r)) cf k = reads_of t cf k \<and>
            writes_of (snd (Untrack (Track t r) r)) cf k = writes_of t cf k) \<and>
    (fst (Untrack (Track t r) r) = REMOVED \<longleftrightarrow>
       tracked_at t (plr_column_family_id r) (plr_key r) = None)"
proof (intro conjI allI)
  note inv = trk_inv_Track [OF assms, of r]
  show inv': "trk_inv (snd (Untrack (Track t r) r))" by (rule Untrack_inv [OF inv])
  show counts: "reads_of (snd (Untrack (Track t r) r)) cf k = reads_of t cf k"
    "writes_of (snd (Untrack (Track t r) r)) cf k = writes_of t cf k" for cf k
    by (simp_all add: Untrack_counts reads_of_Track [OF assms(2)] writes_of_Track [OF assms(2)])
  show "fst (Untrack (Track t r) r) = REMOVED \<longleftrightarrow>
      tracked_at t (plr_column_family_id r) (plr_key r) = None"
    unfolding Untrack_REMOVED [OF inv]
    using tracked_counts [OF inv'] tracked_counts [OF assms(1)] counts
    by (simp add: tracked_at_Track) (metis not_None_eq)
qed

theorem Untrack_undoes_Track_witness:
  "fst (Untrack (Track PointLockTracker_new
      \<lparr>plr_column_family_id = 0, plr_key = ''a'', plr_seq = 7, plr_read_only = True, plr_exclusive = False\<rparr>)
      \<lparr>plr_column_family_id = 0, plr_key = ''a'', plr_seq = 7, plr_read_only = True, plr_exclusive = False\<rparr>) = REMOVED"
proof -
  have "room_for PointLockTracker_new 1" by (simp add: room_for_def lt.new_reads lt.new_writes)
  from Untrack_undoes_Track [OF lt.compact_inv [OF lt.new_compact] this]
  show ?thesis by (simp add: PointLockTracker_new_def tracked_at_def)
qed

end
