(* ===== verification/Coding.thy ===== *)
theory Coding
  imports Prelude
begin

text \<open>
  The integer and string encodings (\<^verbatim>\<open>util/coding_lean.h\<close>, \<^verbatim>\<open>util/coding.h\<close>, \<^verbatim>\<open>util/coding.cc\<close>): fixed-length
  little-endian numbers, variable-length numbers with seven bits per byte, the zigzag form of signed
  numbers and length-prefixed strings.

  A buffer is a list of bytes. The writers append, so the model of \<^verbatim>\<open>PutX(dst, v)\<close> is the bytes it appends.
  A reader answers \<^const>\<open>None\<close> where the code returns false or a null pointer, and otherwise the value
  and the rest of the input.
\<close>

unbundle bit_operations_syntax

type_synonym byte = "8 word"
type_synonym u16 = "16 word"

section \<open>Fixed-length numbers\<close>

definition EncodeFixed16 :: "u16 \<Rightarrow> byte list" where
  "EncodeFixed16 value = [ucast value, ucast (drop_bit 8 value)]"

definition EncodeFixed32 :: "u32 \<Rightarrow> byte list" where
  "EncodeFixed32 value =
     [ucast value, ucast (drop_bit 8 value), ucast (drop_bit 16 value), ucast (drop_bit 24 value)]"

definition EncodeFixed64 :: "u64 \<Rightarrow> byte list" where
  "EncodeFixed64 value =
     [ucast value, ucast (drop_bit 8 value), ucast (drop_bit 16 value), ucast (drop_bit 24 value),
      ucast (drop_bit 32 value), ucast (drop_bit 40 value), ucast (drop_bit 48 value), ucast (drop_bit 56 value)]"

text \<open>The decoders read without a bounds check: a buffer that is too short is undefined behaviour.\<close>

fun DecodeFixed16 :: "byte list \<Rightarrow> u16 option" where
  "DecodeFixed16 (b0 # b1 # _) = Some (ucast b0 OR push_bit 8 (ucast b1))"
| "DecodeFixed16 _ = None"

fun DecodeFixed32 :: "byte list \<Rightarrow> u32 option" where
  "DecodeFixed32 (b0 # b1 # b2 # b3 # _) =
     Some (ucast b0 OR push_bit 8 (ucast b1) OR push_bit 16 (ucast b2) OR push_bit 24 (ucast b3))"
| "DecodeFixed32 _ = None"

definition DecodeFixed64 :: "byte list \<Rightarrow> u64 option" where
  "DecodeFixed64 ptr =
     (case (DecodeFixed32 ptr, DecodeFixed32 (drop 4 ptr)) of
        (Some lo, Some hi) \<Rightarrow> Some (push_bit 32 (ucast hi) OR ucast lo)
      | _ \<Rightarrow> None)"

definition GetFixed16 :: "byte list \<Rightarrow> (u16 \<times> byte list) option" where
  "GetFixed16 input = (if length input < 2 then None else map_option (\<lambda>v. (v, drop 2 input)) (DecodeFixed16 input))"

definition GetFixed32 :: "byte list \<Rightarrow> (u32 \<times> byte list) option" where
  "GetFixed32 input = (if length input < 4 then None else map_option (\<lambda>v. (v, drop 4 input)) (DecodeFixed32 input))"

definition GetFixed64 :: "byte list \<Rightarrow> (u64 \<times> byte list) option" where
  "GetFixed64 input = (if length input < 8 then None else map_option (\<lambda>v. (v, drop 8 input)) (DecodeFixed64 input))"

definition PutFixed16 :: "u16 \<Rightarrow> byte list" where "PutFixed16 value = EncodeFixed16 value"
definition PutFixed32 :: "u32 \<Rightarrow> byte list" where "PutFixed32 value = EncodeFixed32 value"
definition PutFixed64 :: "u64 \<Rightarrow> byte list" where "PutFixed64 value = EncodeFixed64 value"

section \<open>Variable-length numbers\<close>

definition EncodeVarint32 :: "u32 \<Rightarrow> byte list" where
  "EncodeVarint32 v =
     (let B = 128
      in if v < 2 ^ 7 then [ucast v]
         else if v < 2 ^ 14 then [ucast (v OR B), ucast (drop_bit 7 v)]
         else if v < 2 ^ 21 then [ucast (v OR B), ucast (drop_bit 7 v OR B), ucast (drop_bit 14 v)]
         else if v < 2 ^ 28
         then [ucast (v OR B), ucast (drop_bit 7 v OR B), ucast (drop_bit 14 v OR B), ucast (drop_bit 21 v)]
         else [ucast (v OR B), ucast (drop_bit 7 v OR B), ucast (drop_bit 14 v OR B), ucast (drop_bit 21 v OR B),
               ucast (drop_bit 28 v)])"

lemma drop_7_less: "\<not> v < 128 \<Longrightarrow> unat (drop_bit 7 v) < unat (v :: u64)"
  by (simp add: unsigned_drop_bit_eq drop_bit_eq_div word_less_nat_alt unat_div)

function EncodeVarint64 :: "u64 \<Rightarrow> byte list" where
  "EncodeVarint64 v = (if v < 128 then [ucast v] else ucast ((v AND 127) OR 128) # EncodeVarint64 (drop_bit 7 v))"
  by pat_completeness auto
termination by (relation "measure unat") (simp_all add: drop_7_less)

function VarintLength :: "u64 \<Rightarrow> nat" where
  "VarintLength v = (if v < 128 then 1 else Suc (VarintLength (drop_bit 7 v)))"
  by pat_completeness auto
termination by (relation "measure unat") (simp_all add: drop_7_less)

declare EncodeVarint64.simps [simp del] VarintLength.simps [simp del]

text \<open>The loops of the two readers; \<open>shift\<close> and \<open>result\<close> are their variables.\<close>

fun varint32_loop :: "nat \<Rightarrow> u32 \<Rightarrow> byte list \<Rightarrow> (u32 \<times> byte list) option" where
  "varint32_loop shift result [] = None"
| "varint32_loop shift result (b # p) =
     (if shift \<le> 28
      then let byte = ucast b
           in if byte AND 128 \<noteq> 0 then varint32_loop (shift + 7) (result OR push_bit shift (byte AND 127)) p
              else Some (result OR push_bit shift byte, p)
      else None)"

fun varint64_loop :: "nat \<Rightarrow> u64 \<Rightarrow> byte list \<Rightarrow> (u64 \<times> byte list) option" where
  "varint64_loop shift result [] = None"
| "varint64_loop shift result (b # p) =
     (if shift \<le> 63
      then let byte = ucast b
           in if byte AND 128 \<noteq> 0 then varint64_loop (shift + 7) (result OR push_bit shift (byte AND 127)) p
              else Some (result OR push_bit shift byte, p)
      else None)"

definition GetVarint32PtrFallback :: "byte list \<Rightarrow> (u32 \<times> byte list) option" where
  "GetVarint32PtrFallback p = varint32_loop 0 0 p"

definition GetVarint32Ptr :: "byte list \<Rightarrow> (u32 \<times> byte list) option" where
  "GetVarint32Ptr p =
     (case p of
        b # q \<Rightarrow> let result = ucast b :: u32 in if result AND 128 = 0 then Some (result, q) else GetVarint32PtrFallback p
      | [] \<Rightarrow> GetVarint32PtrFallback p)"

definition GetVarint64Ptr :: "byte list \<Rightarrow> (u64 \<times> byte list) option" where
  "GetVarint64Ptr p = varint64_loop 0 0 p"

definition GetVarint32 :: "byte list \<Rightarrow> (u32 \<times> byte list) option" where "GetVarint32 input = GetVarint32Ptr input"
definition GetVarint64 :: "byte list \<Rightarrow> (u64 \<times> byte list) option" where "GetVarint64 input = GetVarint64Ptr input"

definition PutVarint32 :: "u32 \<Rightarrow> byte list" where "PutVarint32 v = EncodeVarint32 v"
definition PutVarint64 :: "u64 \<Rightarrow> byte list" where "PutVarint64 v = EncodeVarint64 v"

definition PutVarint32Varint32 :: "u32 \<Rightarrow> u32 \<Rightarrow> byte list" where
  "PutVarint32Varint32 v1 v2 = EncodeVarint32 v1 @ EncodeVarint32 v2"

definition PutVarint32Varint32Varint32 :: "u32 \<Rightarrow> u32 \<Rightarrow> u32 \<Rightarrow> byte list" where
  "PutVarint32Varint32Varint32 v1 v2 v3 = EncodeVarint32 v1 @ EncodeVarint32 v2 @ EncodeVarint32 v3"

definition PutVarint64Varint64 :: "u64 \<Rightarrow> u64 \<Rightarrow> byte list" where
  "PutVarint64Varint64 v1 v2 = EncodeVarint64 v1 @ EncodeVarint64 v2"

definition PutVarint32Varint64 :: "u32 \<Rightarrow> u64 \<Rightarrow> byte list" where
  "PutVarint32Varint64 v1 v2 = EncodeVarint32 v1 @ EncodeVarint64 v2"

definition PutVarint32Varint32Varint64 :: "u32 \<Rightarrow> u32 \<Rightarrow> u64 \<Rightarrow> byte list" where
  "PutVarint32Varint32Varint64 v1 v2 v3 = EncodeVarint32 v1 @ EncodeVarint32 v2 @ EncodeVarint64 v3"

section \<open>Signed numbers\<close>

text \<open>A signed 64-bit number is the word of its bits; the shift by 63 is arithmetic.\<close>

definition i64ToZigzag :: "u64 \<Rightarrow> u64" where
  "i64ToZigzag l = push_bit 1 l XOR signed_drop_bit 63 l"

definition zigzagToI64 :: "u64 \<Rightarrow> u64" where
  "zigzagToI64 n = drop_bit 1 n XOR - (n AND 1)"

definition PutVarsignedint64 :: "u64 \<Rightarrow> byte list" where
  "PutVarsignedint64 v = EncodeVarint64 (i64ToZigzag v)"

definition GetVarsignedint64 :: "byte list \<Rightarrow> (u64 \<times> byte list) option" where
  "GetVarsignedint64 input = map_option (\<lambda>(u, rest). (zigzagToI64 u, rest)) (GetVarint64Ptr input)"

section \<open>Strings\<close>

definition PutLengthPrefixedSlice :: "byte list \<Rightarrow> byte list" where
  "PutLengthPrefixedSlice value = PutVarint32 (of_nat (length value)) @ value"

definition PutLengthPrefixedSliceParts :: "nat \<Rightarrow> byte list list \<Rightarrow> byte list" where
  "PutLengthPrefixedSliceParts total_bytes parts =
     (let total_bytes = foldl (\<lambda>n part. n + length part) total_bytes parts
      in PutVarint32 (of_nat total_bytes) @ concat parts)"

definition PutLengthPrefixedSlicePartsWithPadding :: "byte list list \<Rightarrow> nat \<Rightarrow> byte list" where
  "PutLengthPrefixedSlicePartsWithPadding parts pad_sz = PutLengthPrefixedSliceParts pad_sz parts @ replicate pad_sz 0"

definition GetLengthPrefixedSlice :: "byte list \<Rightarrow> (byte list \<times> byte list) option" where
  "GetLengthPrefixedSlice input =
     (case GetVarint32 input of
        Some (len, input) \<Rightarrow>
          if length input \<ge> unat len then Some (take (unat len) input, drop (unat len) input) else None
      | None \<Rightarrow> None)"

text \<open>The 32-bit index of the loop is enough for slices shorter than \<open>2 ^ 32\<close> bytes.\<close>

definition GetSliceUntil :: "byte list \<Rightarrow> byte \<Rightarrow> byte list \<times> byte list" where
  "GetSliceUntil s delimiter =
     (let len = length (takeWhile (\<lambda>b. b \<noteq> delimiter) s)
      in (take len s, drop (len + (if len < length s then 1 else 0)) s))"

section \<open>Lemmas\<close>

lemma bit_byte_at:
  fixes v :: "'a::len word"
  shows "bit (push_bit k (ucast (ucast (drop_bit k v) :: byte)) :: 'a word) n \<longleftrightarrow> k \<le> n \<and> n < k + 8 \<and> bit v n"
    and "bit (ucast (ucast v :: byte) :: 'a word) n \<longleftrightarrow> n < 8 \<and> bit v n"
proof -
  have len: "n < LENGTH('a)" if "bit v n" for n using that by (rule bit_imp_le_length)
  show "bit (push_bit k (ucast (ucast (drop_bit k v) :: byte)) :: 'a word) n \<longleftrightarrow> k \<le> n \<and> n < k + 8 \<and> bit v n"
    by (auto simp: bit_simps dest: len)
  show "bit (ucast (ucast v :: byte) :: 'a word) n \<longleftrightarrow> n < 8 \<and> bit v n"
    by (auto simp: bit_simps dest: len)
qed

lemma fixed16_split: "ucast (ucast v :: byte) OR push_bit 8 (ucast (ucast (drop_bit 8 v) :: byte)) = (v :: u16)"
  by (rule bit_word_eqI) (auto simp: bit_or_iff bit_byte_at)

lemma fixed32_split:
  "ucast (ucast v :: byte) OR push_bit 8 (ucast (ucast (drop_bit 8 v) :: byte)) OR
   push_bit 16 (ucast (ucast (drop_bit 16 v) :: byte)) OR push_bit 24 (ucast (ucast (drop_bit 24 v) :: byte)) = (v :: u32)"
  by (rule bit_word_eqI) (auto simp: bit_or_iff bit_byte_at)

lemma fixed64_halves: "push_bit 32 (ucast (ucast (drop_bit 32 v) :: u32)) OR ucast (ucast v :: u32) = (v :: u64)"
  by (rule bit_word_eqI) (auto simp: bit_simps)

lemma DecodeFixed32_Encode: "DecodeFixed32 (EncodeFixed32 v @ rest) = Some v"
  by (simp add: EncodeFixed32_def fixed32_split)

lemma EncodeFixed64_halves: "EncodeFixed64 v = EncodeFixed32 (ucast v) @ EncodeFixed32 (ucast (drop_bit 32 v))"
  by (auto simp: EncodeFixed64_def EncodeFixed32_def intro!: bit_word_eqI simp: bit_simps)

lemma DecodeFixed64_Encode: "DecodeFixed64 (EncodeFixed64 v @ rest) = Some v"
  by (simp add: DecodeFixed64_def EncodeFixed64_halves DecodeFixed32_Encode fixed64_halves)
    (simp add: EncodeFixed32_def fixed32_split fixed64_halves)

lemma bit_127: "bit (127 :: int) n \<longleftrightarrow> n < 7"
proof -
  have "(127 :: int) = mask 7" by (simp add: mask_eq_exp_minus_1)
  then show ?thesis by (simp only: bit_mask_iff possible_bit_int simp_thms)
qed

lemma bit_128: "bit (128 :: int) n \<longleftrightarrow> n = 7"
  using bit_exp_iff [where 'a = int, of 7 n] by auto

lemmas byte_bits = bit_simps bit_127 bit_128

text \<open>A byte with the continuation bit, and the last byte, as the readers see them.\<close>

lemma continue_byte:
  fixes v :: "'a::len word"
  assumes "8 \<le> LENGTH('a)"
  shows "(ucast (ucast ((v AND 127) OR 128) :: byte) :: 'a word) AND 128 \<noteq> 0"
    and "(ucast (ucast ((v AND 127) OR 128) :: byte) :: 'a word) AND 127 = v AND 127"
proof -
  have "bit ((ucast (ucast ((v AND 127) OR 128) :: byte) :: 'a word) AND 128) 7"
    using assms by (simp add: byte_bits)
  then show "(ucast (ucast ((v AND 127) OR 128) :: byte) :: 'a word) AND 128 \<noteq> 0" by auto
  show "(ucast (ucast ((v AND 127) OR 128) :: byte) :: 'a word) AND 127 = v AND 127"
    using assms by (intro bit_word_eqI) (auto simp: byte_bits)
qed

lemma last_byte:
  fixes v :: "'a::len word"
  assumes "8 \<le> LENGTH('a)" "unat v < 128"
  shows "(ucast (ucast v :: byte) :: 'a word) = v" and "v AND 128 = 0"
proof -
  have "take_bit 7 (unat v) = unat v" using assms(2) by (simp add: take_bit_eq_mod)
  then have "unat (take_bit 7 v) = unat v" by (simp only: unsigned_take_bit_eq)
  then have v: "take_bit 7 v = v" by (rule unsigned_word_eqI)
  have bits: "n < 7" if "bit v n" for n using that v by (metis bit_take_bit_iff)
  show "(ucast (ucast v :: byte) :: 'a word) = v" by (rule bit_word_eqI) (auto simp: bit_simps dest: bits)
  show "v AND 128 = 0" by (rule bit_word_eqI) (auto simp: byte_bits dest: bits)
qed

lemma low_high:
  fixes v :: "'a::len word"
  shows "push_bit n (v AND 127) OR push_bit (n + 7) (drop_bit 7 v) = push_bit n v"
proof -
  have len: "k < LENGTH('a)" if "bit v k" for k using that by (rule bit_imp_le_length)
  have "bit (push_bit n (v AND 127) OR push_bit (n + 7) (drop_bit 7 v)) k = bit (push_bit n v) k" if "k < LENGTH('a)" for k
  proof (cases "n + 7 \<le> k")
    case True
    then have "7 + (k - (n + 7)) = k - n" by simp
    with True that show ?thesis by (auto simp: byte_bits dest: len)
  next
    case False
    with that show ?thesis by (auto simp: byte_bits dest: len)
  qed
  then show ?thesis by (rule bit_word_eqI)
qed

lemma shift_bound: "128 \<le> n \<Longrightarrow> n * 2 ^ k < 2 ^ m \<Longrightarrow> k + 7 < (m :: nat)" for n :: nat
proof -
  assume "128 \<le> n" "n * 2 ^ k < 2 ^ m"
  then have "128 * 2 ^ k < (2 ^ m :: nat)" by (meson le_less_trans mult_le_mono1)
  then have "2 ^ (k + 7) < (2 ^ m :: nat)" by (simp add: power_add)
  then show ?thesis by (simp add: power_strict_increasing_iff)
qed

lemma drop_7_bound: "n * 2 ^ k < 2 ^ m \<Longrightarrow> n div 128 * 2 ^ (k + 7) < 2 ^ m" for n :: nat
proof -
  have "n div 128 * 2 ^ (k + 7) \<le> n * 2 ^ k" by (simp add: power_add)
  then show "n * 2 ^ k < 2 ^ m \<Longrightarrow> n div 128 * 2 ^ (k + 7) < 2 ^ m" by linarith
qed

lemma unat_drop_7: "unat (drop_bit 7 v) = unat v div 128"
proof -
  have "unat (drop_bit 7 v) = drop_bit 7 (unat v)" by (rule unat_drop_bit_eq)
  then show ?thesis by (simp only: drop_bit_eq_div) simp
qed

lemma varint64_loop_Encode:
  "shift \<le> 63 \<Longrightarrow> unat v * 2 ^ shift < 2 ^ 64 \<Longrightarrow>
   varint64_loop shift result (EncodeVarint64 v @ rest) = Some (result OR push_bit shift v, rest)"
proof (induction v arbitrary: shift result rule: EncodeVarint64.induct)
  case (1 v)
  show ?case
  proof (cases "v < 128")
    case True
    then show ?thesis using 1(2) last_byte [of v] by (simp add: EncodeVarint64.simps [of v] word_less_nat_alt)
  next
    case False
    then have ge: "128 \<le> unat v" by (simp add: word_less_nat_alt)
    have s: "shift + 7 \<le> 63" using shift_bound [OF ge 1(3)] by simp
    have d: "unat (drop_bit 7 v) * 2 ^ (shift + 7) < 2 ^ 64" unfolding unat_drop_7 by (rule drop_7_bound [OF 1(3)])
    have "varint64_loop shift result (EncodeVarint64 v @ rest) =
        varint64_loop (shift + 7) (result OR push_bit shift (v AND 127)) (EncodeVarint64 (drop_bit 7 v) @ rest)"
      using False 1(2) continue_byte [of v] by (simp add: EncodeVarint64.simps [of v])
    also have "\<dots> = Some ((result OR push_bit shift (v AND 127)) OR push_bit (shift + 7) (drop_bit 7 v), rest)"
      by (rule 1(1) [OF False s d])
    finally show ?thesis by (simp only: or.assoc low_high)
  qed
qed

text \<open>The unrolled writer agrees with the loop.\<close>

lemma unat_ucast_32: "unat (ucast v :: u64) = unat (v :: u32)"
proof -
  have "unat v < 2 ^ 64" using unsigned_less [of v, where 'a = nat] by simp
  then show ?thesis by (simp add: unsigned_ucast_eq take_bit_nat_eq_self)
qed

lemma less_128: "ucast v < (128 :: u64) \<longleftrightarrow> v < (128 :: u32)"
  by (simp add: word_less_nat_alt unat_ucast_32)

lemma encode_step:
  fixes v :: u32
  shows "v < 128 \<Longrightarrow> EncodeVarint64 (ucast v) = [ucast v]"
    and "\<not> v < 128 \<Longrightarrow> EncodeVarint64 (ucast v) = ucast (v OR 128) # EncodeVarint64 (ucast (drop_bit 7 v))"
proof -
  have "ucast (ucast v :: u64) = (ucast v :: byte)" by (rule bit_word_eqI) (auto simp: bit_simps)
  then show "v < 128 \<Longrightarrow> EncodeVarint64 (ucast v) = [ucast v]"
    by (simp add: EncodeVarint64.simps [of "ucast v"] less_128)
  have b: "ucast ((ucast v AND 127) OR 128 :: u64) = (ucast (v OR 128) :: byte)"
    by (rule bit_word_eqI) (auto simp: byte_bits)
  have d: "drop_bit 7 (ucast v :: u64) = ucast (drop_bit 7 v)" by (rule bit_word_eqI) (auto simp: bit_simps dest: bit_imp_le_length)
  show "\<not> v < 128 \<Longrightarrow> EncodeVarint64 (ucast v) = ucast (v OR 128) # EncodeVarint64 (ucast (drop_bit 7 v))"
    unfolding EncodeVarint64.simps [of "ucast v"] less_128 d b by simp
qed

lemma drop_less_128: "drop_bit 7 v < 128 \<longleftrightarrow> v < (2 ^ 14 :: u32)" "drop_bit 14 v < 128 \<longleftrightarrow> v < (2 ^ 21 :: u32)"
  "drop_bit 21 v < 128 \<longleftrightarrow> v < (2 ^ 28 :: u32)" "drop_bit 28 v < (128 :: u32)"
proof -
  have v: "unat v < 2 ^ 32" using unsigned_less [of v, where 'a = nat] by simp
  have d: "unat (drop_bit n v) = unat v div 2 ^ n" for n
    using unat_drop_bit_eq [of n v] by (simp only: drop_bit_eq_div)
  show "drop_bit 7 v < 128 \<longleftrightarrow> v < (2 ^ 14 :: u32)" "drop_bit 14 v < 128 \<longleftrightarrow> v < (2 ^ 21 :: u32)"
    "drop_bit 21 v < 128 \<longleftrightarrow> v < (2 ^ 28 :: u32)" "drop_bit 28 v < (128 :: u32)"
    unfolding word_less_nat_alt d using v by (simp_all add: div_less_iff_less_mult)
qed

lemma EncodeVarint32_loop: "EncodeVarint32 v = EncodeVarint64 (ucast v)"
proof -
  have 7: "v < 128 \<longleftrightarrow> v < 2 ^ 7" by simp
  note d = drop_bit_drop_bit [of 7 7 v] drop_bit_drop_bit [of 7 14 v] drop_bit_drop_bit [of 7 21 v]
  note steps = encode_step [of v] encode_step [of "drop_bit 7 v", unfolded d(1)] encode_step [of "drop_bit 14 v", unfolded d(2)]
    encode_step [of "drop_bit 21 v", unfolded d(3)] encode_step(1) [of "drop_bit 28 v"]
  show ?thesis
    unfolding EncodeVarint32_def Let_def
    using steps drop_less_128 [of v] 7 by (auto simp del: power_numeral)
qed

lemma continue_byte32:
  "(ucast (ucast (v OR 128) :: byte) :: u32) AND 128 \<noteq> 0" "(ucast (ucast (v OR 128) :: byte) :: u32) AND 127 = v AND 127"
  for v :: u32
proof -
  have "bit ((ucast (ucast (v OR 128) :: byte) :: u32) AND 128) 7" by (simp add: byte_bits)
  then show "(ucast (ucast (v OR 128) :: byte) :: u32) AND 128 \<noteq> 0" by auto
  show "(ucast (ucast (v OR 128) :: byte) :: u32) AND 127 = v AND 127"
    by (rule bit_word_eqI) (auto simp: byte_bits)
qed

lemma varint32_loop_Encode:
  "7 dvd shift \<Longrightarrow> shift \<le> 28 \<Longrightarrow> unat v * 2 ^ shift < 2 ^ 32 \<Longrightarrow>
   varint32_loop shift result (EncodeVarint64 (ucast v) @ rest) = Some (result OR push_bit shift v, rest)"
proof (induction "unat v" arbitrary: v shift result rule: less_induct)
  case less
  show ?case
  proof (cases "v < 128")
    case True
    then show ?thesis using less.prems(2) last_byte [of v] by (simp add: encode_step word_less_nat_alt)
  next
    case False
    then have ge: "128 \<le> unat v" by (simp add: word_less_nat_alt)
    have s: "shift + 7 \<le> 28" "7 dvd shift + 7" using shift_bound [OF ge less.prems(3)] less.prems(1) by auto
    have d: "unat (drop_bit 7 v) * 2 ^ (shift + 7) < 2 ^ 32" "unat (drop_bit 7 v) < unat v"
      unfolding unat_drop_7 using drop_7_bound [OF less.prems(3)] ge by simp_all
    have "varint32_loop shift result (EncodeVarint64 (ucast v) @ rest) =
        varint32_loop (shift + 7) (result OR push_bit shift (v AND 127)) (EncodeVarint64 (ucast (drop_bit 7 v)) @ rest)"
      using False less.prems(2) continue_byte32 [of v] by (simp add: encode_step)
    also have "\<dots> = Some ((result OR push_bit shift (v AND 127)) OR push_bit (shift + 7) (drop_bit 7 v), rest)"
      by (rule less.hyps [OF d(2) s(2) s(1) d(1)])
    finally show ?thesis by (simp only: or.assoc low_high)
  qed
qed

lemma GetVarint32Ptr_eq: "GetVarint32Ptr p = varint32_loop 0 0 p"
  by (cases p) (auto simp: GetVarint32Ptr_def GetVarint32PtrFallback_def Let_def)

lemma GetVarint32_Put: "GetVarint32 (PutVarint32 v @ rest) = Some (v, rest)"
  using varint32_loop_Encode [of 0 v 0 rest] unsigned_less [of v, where 'a = nat]
  by (simp add: GetVarint32_def GetVarint32Ptr_eq PutVarint32_def EncodeVarint32_loop)

lemma GetVarint64_Put: "GetVarint64 (PutVarint64 v @ rest) = Some (v, rest)"
  using varint64_loop_Encode [of 0 v 0 rest] unsigned_less [of v, where 'a = nat]
  by (simp add: GetVarint64_def GetVarint64Ptr_def PutVarint64_def)

lemma sign_bits: "signed_drop_bit 63 l = (if bit l 63 then - 1 else 0)" for l :: u64
proof (rule bit_word_eqI)
  show "bit (signed_drop_bit 63 l) n = bit (if bit l 63 then - 1 else 0 :: u64) n" if "n < LENGTH(64)" for n
    using that by (cases n) (auto simp: bit_simps)
qed

lemma bit_zigzag: "bit (i64ToZigzag l) n \<longleftrightarrow> n < 64 \<and> ((1 \<le> n \<and> bit l (n - 1)) \<noteq> bit l 63)"
proof -
  have "bit (i64ToZigzag l) n \<longleftrightarrow> bit (push_bit 1 l) n \<noteq> bit (if bit l 63 then - 1 else 0 :: u64) n"
    unfolding i64ToZigzag_def sign_bits by (rule bit_xor_iff)
  also have "bit (push_bit 1 l) n \<longleftrightarrow> 1 \<le> n \<and> n < 64 \<and> bit l (n - 1)"
    unfolding bit_push_bit_iff by auto
  finally show ?thesis by auto
qed

lemma zigzag_roundtrip: "zigzagToI64 (i64ToZigzag l) = l"
proof -
  have "i64ToZigzag l AND 1 = (if bit l 63 then 1 else 0)"
    by (rule bit_word_eqI) (auto simp: bit_zigzag bit_and_iff bit_1_iff)
  then have m: "- (i64ToZigzag l AND 1) = (if bit l 63 then - 1 else 0)" by simp
  have "bit (zigzagToI64 (i64ToZigzag l)) n = bit l n" if "n < 64" for n
  proof -
    have "bit (drop_bit 1 (i64ToZigzag l)) n \<longleftrightarrow> n < 63 \<and> bit l n \<noteq> bit l 63"
      by (auto simp: bit_drop_bit_eq bit_zigzag)
    then show ?thesis
      using that unfolding zigzagToI64_def m bit_xor_iff by (cases "n = 63") auto
  qed
  then show ?thesis by (intro bit_word_eqI) simp
qed

lemma length_EncodeVarint64: "length (EncodeVarint64 v) = VarintLength v"
proof (induction v rule: EncodeVarint64.induct)
  case (1 v)
  then show ?case by (simp add: EncodeVarint64.simps [of v] VarintLength.simps [of v])
qed

lemma VarintLength_bound: "unat v < 2 ^ (7 * n) \<Longrightarrow> 0 < n \<Longrightarrow> 1 \<le> VarintLength v \<and> VarintLength v \<le> n"
proof (induction n arbitrary: v)
  case (Suc n)
  show ?case
  proof (cases "v < 128")
    case True
    then show ?thesis by (simp add: VarintLength.simps [of v])
  next
    case False
    then have ge: "128 \<le> unat v" by (simp add: word_less_nat_alt)
    have "unat v < 128 * 2 ^ (7 * n)" using Suc.prems(1) by (simp add: power_add)
    then have "unat (drop_bit 7 v) < 2 ^ (7 * n)" unfolding unat_drop_7 by (simp add: div_less_iff_less_mult mult.commute)
    moreover have "0 < n" using ge Suc.prems(1) by (cases n) auto
    ultimately show ?thesis using Suc.IH [of "drop_bit 7 v"] False by (simp add: VarintLength.simps [of v])
  qed
qed simp

lemma varint32_loop_suffix:
  "varint32_loop shift result p = Some (v, rest) \<Longrightarrow> \<exists>pre. p = pre @ rest \<and> 7 * length pre + shift \<le> 35 \<and> pre \<noteq> []"
proof (induction p arbitrary: shift result)
  case (Cons b p)
  show ?case
  proof (cases "(ucast b :: u32) AND 128 \<noteq> 0")
    case True
    with Cons.prems have "varint32_loop (shift + 7) (result OR push_bit shift (ucast b AND 127)) p = Some (v, rest)"
      by (simp split: if_splits)
    from Cons.IH [OF this] obtain pre where "p = pre @ rest" "7 * length pre + (shift + 7) \<le> 35" by blast
    then show ?thesis by (intro exI [of _ "b # pre"]) simp
  next
    case False
    with Cons.prems show ?thesis by (intro exI [of _ "[b]"]) (simp split: if_splits)
  qed
qed simp

section \<open>Properties\<close>

text \<open>
  C31: What is written is read back. Every fixed-length, variable-length and signed number, followed by
  any other bytes, is read back unchanged, and reading stops where the number ends.
\<close>

theorem integers_roundtrip:
  "GetFixed16 (PutFixed16 a @ rest) = Some (a, rest) \<and> GetFixed32 (PutFixed32 b @ rest) = Some (b, rest) \<and>
   GetFixed64 (PutFixed64 c @ rest) = Some (c, rest) \<and> GetVarint32 (PutVarint32 b @ rest) = Some (b, rest) \<and>
   GetVarint64 (PutVarint64 c @ rest) = Some (c, rest) \<and>
   GetVarsignedint64 (PutVarsignedint64 c @ rest) = Some (c, rest)"
proof (intro conjI)
  show "GetFixed16 (PutFixed16 a @ rest) = Some (a, rest)"
    by (simp add: GetFixed16_def PutFixed16_def EncodeFixed16_def fixed16_split)
  show "GetFixed32 (PutFixed32 b @ rest) = Some (b, rest)"
    by (simp add: GetFixed32_def PutFixed32_def DecodeFixed32_Encode) (simp add: EncodeFixed32_def)
  show "GetFixed64 (PutFixed64 c @ rest) = Some (c, rest)"
    by (simp add: GetFixed64_def PutFixed64_def DecodeFixed64_Encode) (simp add: EncodeFixed64_def)
  show "GetVarsignedint64 (PutVarsignedint64 c @ rest) = Some (c, rest)"
    using GetVarint64_Put [of "i64ToZigzag c" rest]
    by (simp add: GetVarsignedint64_def PutVarsignedint64_def GetVarint64_def PutVarint64_def zigzag_roundtrip)
qed (rule GetVarint32_Put GetVarint64_Put)+

text \<open>
  C33: Variable-length numbers fit their buffers. The loop writes exactly \<open>VarintLength\<close> bytes, between
  one and ten, and the unrolled 32-bit writer at most five: the sizes of the buffers the callers have.
\<close>

theorem varint_fits_buffer:
  "length (EncodeVarint64 v) = VarintLength v \<and> 1 \<le> VarintLength v \<and> VarintLength v \<le> 10 \<and>
   1 \<le> length (EncodeVarint32 w) \<and> length (EncodeVarint32 w) \<le> 5"
  using length_EncodeVarint64 [of v] VarintLength_bound [of v 10] unsigned_less [of v, where 'a = nat]
    VarintLength_bound [of "ucast w" 5] unsigned_less [of w, where 'a = nat]
  by (simp add: EncodeVarint32_loop length_EncodeVarint64 unat_ucast_32)

text \<open>
  C34: The unrolled writer is the loop. \<open>EncodeVarint32\<close>, which tests the five ranges of a 32-bit number,
  writes the bytes that the loop of \<open>EncodeVarint64\<close> writes for the same number.
\<close>

theorem EncodeVarint32_eq_loop: "EncodeVarint32 v = EncodeVarint64 (ucast v)"
  by (rule EncodeVarint32_loop)

text \<open>
  C32: Length-prefixed strings. A string shorter than \<open>2 ^ 32\<close> bytes, followed by anything, is read back
  unchanged; and whatever the input, a string that the reader returns lies in the input behind a
  prefix of at most five bytes, so nothing beyond the input is read.
\<close>

theorem length_prefixed_slice:
  assumes "length s < 2 ^ 32"
  shows "GetLengthPrefixedSlice (PutLengthPrefixedSlice s @ rest) = Some (s, rest) \<and>
    (\<forall>input r rest'. GetLengthPrefixedSlice input = Some (r, rest') \<longrightarrow>
       (\<exists>pre. input = pre @ r @ rest' \<and> length pre \<le> 5))"
proof (intro conjI allI impI)
  show "GetLengthPrefixedSlice (PutLengthPrefixedSlice s @ rest) = Some (s, rest)"
    using assms by (simp add: GetLengthPrefixedSlice_def PutLengthPrefixedSlice_def GetVarint32_Put unat_of_nat)
  fix input r rest'
  assume "GetLengthPrefixedSlice input = Some (r, rest')"
  then obtain len q where q: "varint32_loop 0 0 input = Some (len, q)" "r = take (unat len) q" "rest' = drop (unat len) q"
    by (auto simp: GetLengthPrefixedSlice_def GetVarint32_def GetVarint32Ptr_eq split: option.splits if_splits)
  from varint32_loop_suffix [OF q(1)] obtain pre where "input = pre @ q" "7 * length pre \<le> 35" by auto
  with q(2,3) show "\<exists>pre. input = pre @ r @ rest' \<and> length pre \<le> 5" by (intro exI [of _ pre]) simp
qed

theorem length_prefixed_slice_witness:
  "GetLengthPrefixedSlice (PutLengthPrefixedSlice [7, 8, 9] @ [1]) = Some ([7, 8, 9], [1])"
  using length_prefixed_slice [of "[7, 8, 9]" "[1]"] by simp

end
