(* ===== verification/Txn_Types.thy ===== *)
theory Txn_Types
  imports Status Lock_Tracker Coding
begin

text \<open>
  The option structures of the transaction layer (\<^verbatim>\<open>include/rocksdb/options.h\<close>,
  \<^verbatim>\<open>include/rocksdb/utilities/transaction.h\<close>, \<^verbatim>\<open>transaction_db.h\<close>), the default methods of a batch
  handler (\<^verbatim>\<open>include/rocksdb/write_batch.h\<close>), and the parameters of the model: the database below the
  transactions and the write batches it consumes (\<^verbatim>\<open>db/\<close>) are not part of the repository, so their
  operations are the fields of a record \<open>db_ops\<close> that the definitions take as an argument.

  \<open>'b\<close> is the state of a \<^verbatim>\<open>WriteBatchWithIndex\<close>, \<open>'c\<close> that of a \<^verbatim>\<open>WriteBatch\<close>, \<open>'d\<close> that of the database.
\<close>

section \<open>Options\<close>

datatype IOPriority = IO_LOW | IO_MID | IO_HIGH | IO_USER | IO_TOTAL

record WriteOptions =
  sync :: bool
  disableWAL :: bool
  ignore_missing_column_families :: bool
  no_slowdown :: bool
  low_pri :: bool
  memtable_insert_hint_per_batch :: bool
  rate_limiter_priority :: IOPriority
  protection_bytes_per_key :: nat

definition WriteOptions_new :: WriteOptions where
  "WriteOptions_new = \<lparr>sync = False, disableWAL = False, ignore_missing_column_families = False,
     no_slowdown = False, low_pri = False, memtable_insert_hint_per_batch = False,
     rate_limiter_priority = IO_TOTAL, protection_bytes_per_key = 0\<rparr>"

datatype TxnDBWritePolicy = WRITE_COMMITTED | WRITE_PREPARED | WRITE_UNPREPARED

text \<open>A custom lock manager is represented by whether it supports range locks.\<close>

record TransactionDBOptions =
  dbo_max_num_locks :: int
  dbo_max_num_deadlocks :: u32
  dbo_num_stripes :: u64
  dbo_transaction_lock_timeout :: int
  dbo_default_lock_timeout :: int
  dbo_write_policy :: TxnDBWritePolicy
  dbo_rollback_merge_operands :: bool
  dbo_lock_mgr_handle :: "bool option"
  dbo_skip_concurrency_control :: bool
  dbo_default_write_batch_flush_threshold :: int

definition TransactionDBOptions_new :: TransactionDBOptions where
  "TransactionDBOptions_new = \<lparr>dbo_max_num_locks = - 1, dbo_max_num_deadlocks = 5, dbo_num_stripes = 16,
     dbo_transaction_lock_timeout = 1000, dbo_default_lock_timeout = 1000, dbo_write_policy = WRITE_COMMITTED,
     dbo_rollback_merge_operands = False, dbo_lock_mgr_handle = None, dbo_skip_concurrency_control = False,
     dbo_default_write_batch_flush_threshold = 0\<rparr>"

record TransactionOptions =
  to_set_snapshot :: bool
  to_deadlock_detect :: bool
  to_use_only_the_last_commit_time_batch_for_recovery :: bool
  to_lock_timeout :: int
  to_expiration :: int
  to_deadlock_detect_depth :: int
  to_max_write_batch_size :: nat
  to_skip_concurrency_control :: bool
  to_skip_prepare :: bool
  to_write_batch_flush_threshold :: int

definition TransactionOptions_new :: TransactionOptions where
  "TransactionOptions_new = \<lparr>to_set_snapshot = False, to_deadlock_detect = False,
     to_use_only_the_last_commit_time_batch_for_recovery = False, to_lock_timeout = - 1, to_expiration = - 1,
     to_deadlock_detect_depth = 50, to_max_write_batch_size = 0, to_skip_concurrency_control = False,
     to_skip_prepare = True, to_write_batch_flush_threshold = - 1\<rparr>"

record TransactionDBWriteOptimizations =
  opt_skip_concurrency_control :: bool
  opt_skip_duplicate_key_check :: bool

datatype TransactionState =
    STARTED | AWAITING_PREPARE | PREPARED | AWAITING_COMMIT | COMMITTED
  | AWAITING_ROLLBACK | ROLLEDBACK | LOCKS_STOLEN

definition kMaxTxnTimestamp :: TxnTimestamp where
  "kMaxTxnTimestamp = - 1"

section \<open>Handles and keys\<close>

text \<open>A null handle is \<^const>\<open>None\<close>; of its comparator only the timestamp size is read.\<close>

record ColumnFamilyHandle =
  cfh_name :: string
  cfh_id :: ColumnFamilyId
  cfh_timestamp_size :: nat

datatype Snapshot = Snapshot (GetSequenceNumber: SequenceNumber)

text \<open>Most operations have two overloads, for a contiguous key and for a key in parts.\<close>

datatype slice = Slice string | SliceParts "string list"

fun contiguous :: "slice \<Rightarrow> string" where
  "contiguous (Slice s) = s"
| "contiguous (SliceParts parts) = concat parts"

text \<open>The read options the transaction layer looks at; a timestamp is the eight bytes of a slice.\<close>

record ReadOptions =
  ro_snapshot :: "Snapshot option"
  ro_timestamp :: "TxnTimestamp option"

section \<open>Batch handlers\<close>

datatype batch_event =
    PutCF ColumnFamilyId string string
  | PutEntityCF ColumnFamilyId string string
  | DeleteCF ColumnFamilyId string
  | SingleDeleteCF ColumnFamilyId string
  | DeleteRangeCF ColumnFamilyId string string
  | MergeCF ColumnFamilyId string string
  | PutBlobIndexCF ColumnFamilyId string string
  | LogData string
  | MarkBeginPrepare bool
  | MarkEndPrepare string
  | MarkNoop bool
  | MarkRollback string
  | MarkCommit string
  | MarkCommitWithTimestamp string TxnTimestamp

text \<open>
  What a handler that overrides nothing answers; the methods without column family it forwards to are
  empty.
\<close>

definition not_default_cf :: "ColumnFamilyId \<Rightarrow> string \<Rightarrow> Status" where
  "not_default_cf cf msg =
     (if cf = 0 then OK else InvalidArgument_msg (''non-default column family and '' @ msg @ '' not implemented'') '''')"

fun Handler_default :: "batch_event \<Rightarrow> Status" where
  "Handler_default (PutCF cf key value) = not_default_cf cf ''PutCF''"
| "Handler_default (PutEntityCF cf key entity) = NotSupported_msg ''PutEntityCF not implemented'' ''''"
| "Handler_default (DeleteCF cf key) = not_default_cf cf ''DeleteCF''"
| "Handler_default (SingleDeleteCF cf key) = not_default_cf cf ''SingleDeleteCF''"
| "Handler_default (DeleteRangeCF cf begin_key end_key) = InvalidArgument_msg ''DeleteRangeCF not implemented'' ''''"
| "Handler_default (MergeCF cf key value) = not_default_cf cf ''MergeCF''"
| "Handler_default (PutBlobIndexCF cf key value) = InvalidArgument_msg ''PutBlobIndexCF not implemented'' ''''"
| "Handler_default (LogData blob) = OK"
| "Handler_default (MarkBeginPrepare unprep) = InvalidArgument_msg ''MarkBeginPrepare() handler not defined.'' ''''"
| "Handler_default (MarkEndPrepare xid) = InvalidArgument_msg ''MarkEndPrepare() handler not defined.'' ''''"
| "Handler_default (MarkNoop empty_batch) = InvalidArgument_msg ''MarkNoop() handler not defined.'' ''''"
| "Handler_default (MarkRollback xid) = InvalidArgument_msg ''MarkRollbackPrepare() handler not defined.'' ''''"
| "Handler_default (MarkCommit xid) = InvalidArgument_msg ''MarkCommit() handler not defined.'' ''''"
| "Handler_default (MarkCommitWithTimestamp xid ts) =
     InvalidArgument_msg ''MarkCommitWithTimestamp() handler not defined.'' ''''"

section \<open>The parameters: write batches and the database\<close>

text \<open>A write to a batch, through its index or (when indexing is disabled) directly.\<close>

datatype batch_ref = with_index | without_index

datatype batch_write =
    Batch_Put "ColumnFamilyHandle option" slice slice
  | Batch_Merge "ColumnFamilyHandle option" slice slice
  | Batch_Delete "ColumnFamilyHandle option" slice
  | Batch_SingleDelete "ColumnFamilyHandle option" slice

text \<open>
  The operations of \<^verbatim>\<open>WriteBatchWithIndex\<close> on \<open>'b\<close> and of \<^verbatim>\<open>WriteBatch\<close> on \<open>'c\<close>; an empty batch is made for
  a number of protection bytes per key. \<open>wb_Iterate\<close> is the contents
  of a batch in the order the handler sees them and the status that reading them ends with.
\<close>

record ('b, 'c) batch_ops =
  wbwi_new :: "nat \<Rightarrow> 'b"
  wbwi_Clear :: "'b \<Rightarrow> 'b"
  wbwi_write :: "batch_ref \<Rightarrow> batch_write \<Rightarrow> 'b \<Rightarrow> Status \<times> 'b"
  wbwi_PutLogData :: "string \<Rightarrow> 'b \<Rightarrow> Status \<times> 'b"
  wbwi_InsertNoop :: "'b \<Rightarrow> 'b"
  wbwi_SetMaxBytes :: "nat \<Rightarrow> 'b \<Rightarrow> 'b"
  wbwi_SetSavePoint :: "'b \<Rightarrow> 'b"
  wbwi_RollbackToSavePoint :: "'b \<Rightarrow> Status \<times> 'b"
  wbwi_PopSavePoint :: "'b \<Rightarrow> Status \<times> 'b"
  wbwi_UpdateProtectionInfo :: "nat \<Rightarrow> 'b \<Rightarrow> 'b"
  wbwi_GetWriteBatch :: "'b \<Rightarrow> 'c"
  wbwi_MarkEndPrepare :: "string \<Rightarrow> 'b \<Rightarrow> 'b"
  wbwi_timestamp_size :: "'b \<Rightarrow> ColumnFamilyId \<Rightarrow> nat option"
  wbwi_UpdateTimestamps :: "TxnTimestamp \<Rightarrow> (ColumnFamilyId \<Rightarrow> u64) \<Rightarrow> 'b \<Rightarrow> Status \<times> 'b"
  wb_new :: "nat \<Rightarrow> 'c"
  wb_Clear :: "'c \<Rightarrow> 'c"
  wb_Count :: "'c \<Rightarrow> nat"
  wb_HasKeyWithTimestamp :: "'c \<Rightarrow> bool"
  wb_Iterate :: "'c \<Rightarrow> batch_event list \<times> Status"
  wb_UpdateProtectionInfo :: "nat \<Rightarrow> 'c \<Rightarrow> Status \<times> 'c"
  wb_MarkCommit :: "string \<Rightarrow> 'c \<Rightarrow> Status \<times> 'c"
  wb_MarkCommitWithTimestamp :: "string \<Rightarrow> TxnTimestamp \<Rightarrow> 'c \<Rightarrow> Status \<times> 'c"
  wb_MarkRollback :: "string \<Rightarrow> 'c \<Rightarrow> 'c"
  wb_MarkWalTerminationPoint :: "'c \<Rightarrow> 'c"
  wb_Append :: "'c \<Rightarrow> 'c \<Rightarrow> 'c"

record WriteImplArgs =
  wi_log_ref :: u64
  wi_disable_memtable :: bool
  wi_mark_log :: bool

text \<open>
  A super version of a column family is taken and returned within one check, so the operations on it
  take the database and the column family. \<open>db_WriteImpl\<close> answers the status, the log (unless it stopped
  before writing one) and the sequence number used. Its callback after the memtable write gets that
  sequence number and works on the database and on a snapshot of the caller.
\<close>

record ('b, 'c, 'd) db_ops = "('b, 'c) batch_ops" +
  db_allow_2pc :: bool
  db_kMaxSequenceNumber :: SequenceNumber
  db_DefaultColumnFamily :: ColumnFamilyHandle
  db_GetColumnFamilyID :: "ColumnFamilyHandle option \<Rightarrow> ColumnFamilyId"
  db_GetColumnFamilyHandle :: "'d \<Rightarrow> ColumnFamilyId \<Rightarrow> ColumnFamilyHandle option"
  db_FailIfTsMismatchCf :: "ColumnFamilyHandle \<Rightarrow> TxnTimestamp \<Rightarrow> Status"
  db_GetFromBatchAndDB :: "ReadOptions \<Rightarrow> ColumnFamilyHandle option \<Rightarrow> string \<Rightarrow> 'b \<Rightarrow> 'd \<Rightarrow> Status \<times> string"
  db_GetLatestSequenceNumber :: "'d \<Rightarrow> SequenceNumber"
  db_HasSuperVersion :: "'d \<Rightarrow> ColumnFamilyId \<Rightarrow> bool"
  db_GetEarliestMemTableSequenceNumber :: "'d \<Rightarrow> ColumnFamilyId \<Rightarrow> SequenceNumber"
  db_GetLatestSequenceForKey ::
    "'d \<Rightarrow> ColumnFamilyId \<Rightarrow> string \<Rightarrow> bool \<Rightarrow> SequenceNumber \<Rightarrow> Status \<times> SequenceNumber \<times> byte list \<times> bool"
  db_CompareTimestamp :: "ColumnFamilyId \<Rightarrow> byte list \<Rightarrow> byte list \<Rightarrow> int"
  db_GetSnapshotForWriteConflictBoundary :: "'d \<Rightarrow> Snapshot option \<times> 'd"
  db_SnapshotCreated :: "nat \<Rightarrow> Snapshot option \<Rightarrow> 'd \<Rightarrow> 'd"
  db_CreateTimestampedSnapshot :: "SequenceNumber \<Rightarrow> TxnTimestamp \<Rightarrow> 'd \<Rightarrow> Status \<times> Snapshot option \<times> 'd"
  db_WriteImpl ::
    "WriteOptions \<Rightarrow> 'c \<Rightarrow> WriteImplArgs \<Rightarrow> (SequenceNumber \<Rightarrow> Snapshot option \<times> 'd \<Rightarrow> Snapshot option \<times> 'd) option \<Rightarrow>
     Snapshot option \<times> 'd \<Rightarrow> Status \<times> u64 option \<times> SequenceNumber \<times> Snapshot option \<times> 'd"
  db_MarkLogAsHavingPrepSectionFlushed :: "u64 \<Rightarrow> 'd \<Rightarrow> 'd"

section \<open>A concrete instance\<close>

text \<open>
  Batches as lists of writes with the lengths at the save points, a database as its last sequence
  number and the list of batches written to it. The witnesses of the properties use it.
\<close>

fun write_event :: "batch_write \<Rightarrow> batch_event" where
  "write_event (Batch_Put cf k v) = PutCF (case cf of None \<Rightarrow> 0 | Some h \<Rightarrow> cfh_id h) (contiguous k) (contiguous v)"
| "write_event (Batch_Merge cf k v) = MergeCF (case cf of None \<Rightarrow> 0 | Some h \<Rightarrow> cfh_id h) (contiguous k) (contiguous v)"
| "write_event (Batch_Delete cf k) = DeleteCF (case cf of None \<Rightarrow> 0 | Some h \<Rightarrow> cfh_id h) (contiguous k)"
| "write_event (Batch_SingleDelete cf k) = SingleDeleteCF (case cf of None \<Rightarrow> 0 | Some h \<Rightarrow> cfh_id h) (contiguous k)"

definition list_db :: "(batch_write list \<times> nat list, batch_event list, u64 \<times> batch_event list list) db_ops" where
  "list_db = \<lparr>
     wbwi_new = \<lambda>_. ([], []),
     wbwi_Clear = \<lambda>_. ([], []),
     wbwi_write = \<lambda>_ op (es, sps). (OK, es @ [op], sps),
     wbwi_PutLogData = \<lambda>_ b. (OK, b),
     wbwi_InsertNoop = \<lambda>b. b,
     wbwi_SetMaxBytes = \<lambda>_ b. b,
     wbwi_SetSavePoint = \<lambda>(es, sps). (es, length es # sps),
     wbwi_RollbackToSavePoint = \<lambda>(es, sps). (case sps of [] \<Rightarrow> (NotFound kNone, es, sps) | n # sps \<Rightarrow> (OK, take n es, sps)),
     wbwi_PopSavePoint = \<lambda>(es, sps). (case sps of [] \<Rightarrow> (NotFound kNone, es, sps) | n # sps \<Rightarrow> (OK, es, sps)),
     wbwi_UpdateProtectionInfo = \<lambda>_ b. b,
     wbwi_GetWriteBatch = \<lambda>(es, _). map write_event es,
     wbwi_MarkEndPrepare = \<lambda>_ b. b,
     wbwi_timestamp_size = \<lambda>_ _. None,
     wbwi_UpdateTimestamps = \<lambda>_ _ b. (OK, b),
     wb_new = \<lambda>_. [],
     wb_Clear = \<lambda>_. [],
     wb_Count = length,
     wb_HasKeyWithTimestamp = \<lambda>_. False,
     wb_Iterate = \<lambda>c. (c, OK),
     wb_UpdateProtectionInfo = \<lambda>_ c. (OK, c),
     wb_MarkCommit = \<lambda>name c. (OK, c @ [MarkCommit name]),
     wb_MarkCommitWithTimestamp = \<lambda>name ts c. (OK, c @ [MarkCommitWithTimestamp name ts]),
     wb_MarkRollback = \<lambda>name c. c @ [MarkRollback name],
     wb_MarkWalTerminationPoint = \<lambda>c. c,
     wb_Append = \<lambda>c c'. c @ c',
     db_allow_2pc = True,
     db_kMaxSequenceNumber = 2 ^ 56 - 1,
     db_DefaultColumnFamily = \<lparr>cfh_name = ''default'', cfh_id = 0, cfh_timestamp_size = 0\<rparr>,
     db_GetColumnFamilyID = \<lambda>cf. (case cf of None \<Rightarrow> 0 | Some h \<Rightarrow> cfh_id h),
     db_GetColumnFamilyHandle = \<lambda>_ cf. Some \<lparr>cfh_name = decimal (unat cf), cfh_id = cf, cfh_timestamp_size = 0\<rparr>,
     db_FailIfTsMismatchCf = \<lambda>_ _. OK,
     db_GetFromBatchAndDB = \<lambda>_ _ _ _ _. (NotFound kNone, ''''),
     db_GetLatestSequenceNumber = fst,
     db_HasSuperVersion = \<lambda>_ _. True,
     db_GetEarliestMemTableSequenceNumber = \<lambda>_ _. 0,
     db_GetLatestSequenceForKey = \<lambda>_ _ _ _ _. (NotFound kNone, 0, [], False),
     db_CompareTimestamp = \<lambda>_ _ _. 0,
     db_GetSnapshotForWriteConflictBoundary = \<lambda>d. (Some (Snapshot (fst d)), d),
     db_SnapshotCreated = \<lambda>_ _ d. d,
     db_CreateTimestampedSnapshot = \<lambda>seq _ d. (OK, Some (Snapshot seq), d),
     db_WriteImpl = \<lambda>_ c _ cb (snap, n, log).
       (OK, Some 1, n + 1, (case cb of None \<Rightarrow> id | Some f \<Rightarrow> f (n + 1)) (snap, n + 1, log @ [c])),
     db_MarkLogAsHavingPrepSectionFlushed = \<lambda>_ d. d\<rparr>"

end
