(* ===== verification/Txn_Base.thy ===== *)
theory Txn_Base
  imports Txn_Types
begin

text \<open>
  \<^verbatim>\<open>TransactionBaseImpl\<close> (\<^verbatim>\<open>utilities/transactions/transaction_base.{h,cc}\<close>): the pending batch, the tracked
  locks, the save points and the snapshot of a transaction.

  An operation works on the transaction and on the rest of the world, a record that has at least the
  database. The methods the base class leaves to its subclasses (\<^verbatim>\<open>TryLock\<close>, \<^verbatim>\<open>UnlockGetForUpdate\<close>,
  \<^verbatim>\<open>Clear\<close> and the overridable writes) are arguments of the operations that call them. The state
  \<^verbatim>\<open>txn_state_\<close>, which other threads change, is part of the world (\<open>Pessimistic_Txn\<close>). When a snapshot
  is released is memory management of \<^verbatim>\<open>shared_ptr\<close> and not modelled.

  The stack \<^verbatim>\<open>save_points_\<close> is a list, its top first; the code treats a null stack as an empty one.
\<close>

section \<open>The transaction\<close>

record SavePoint =
  sp_snapshot :: "Snapshot option"
  sp_snapshot_needed :: bool
  sp_snapshot_notifier :: "nat option"
  sp_num_puts :: u64
  sp_num_deletes :: u64
  sp_num_merges :: u64
  new_locks :: TrackedKeys

record ('b, 'c) TransactionBase =
  log_number :: u64
  txn_name :: string
  seq_id :: u64
  write_options :: WriteOptions
  start_time :: u64
  snapshot :: "Snapshot option"
  snapshot_needed :: bool
  snapshot_notifier :: "nat option"
  num_puts :: u64
  num_deletes :: u64
  num_merges :: u64
  write_batch :: 'b
  commit_time_batch :: 'c
  tracked_locks :: TrackedKeys
  save_points :: "SavePoint list"
  indexing_enabled :: bool

record 'd db_world =
  w_db :: 'd

section \<open>Construction and clearing\<close>

definition InitWriteBatch ::
  "('b, 'c, 'o) batch_ops_scheme \<Rightarrow> bool \<Rightarrow> ('b, 'c, 't) TransactionBase_scheme \<Rightarrow> ('b, 'c, 't) TransactionBase_scheme" where
  "InitWriteBatch ops clear t =
     (let t = (if clear then t\<lparr>write_batch := wbwi_Clear ops (write_batch t)\<rparr> else t)
      in t\<lparr>write_batch := wbwi_InsertNoop ops (write_batch t)\<rparr>)"

definition TransactionBase_new ::
  "('b, 'c, 'd) db_ops \<Rightarrow> u64 \<Rightarrow> WriteOptions \<Rightarrow> ('b, 'c) TransactionBase" where
  "TransactionBase_new ops now wo =
     (let t = \<lparr>log_number = 0, txn_name = '''', seq_id = 0, write_options = wo, start_time = now,
               snapshot = None, snapshot_needed = False, snapshot_notifier = None,
               num_puts = 0, num_deletes = 0, num_merges = 0,
               write_batch = wbwi_new ops (protection_bytes_per_key wo),
               commit_time_batch = wb_new ops (protection_bytes_per_key wo),
               tracked_locks = PointLockTracker_new, save_points = [], indexing_enabled = True\<rparr>
      in if db_allow_2pc ops then InitWriteBatch ops False t else t)"

definition TxnBase_Clear ::
  "('b, 'c, 'd) db_ops \<Rightarrow> ('b, 'c, 't) TransactionBase_scheme \<Rightarrow> ('b, 'c, 't) TransactionBase_scheme" where
  "TxnBase_Clear ops t =
     (let t = t\<lparr>save_points := [], write_batch := wbwi_Clear ops (write_batch t),
                commit_time_batch := wb_Clear ops (commit_time_batch t),
                tracked_locks := Tracker_Clear (tracked_locks t),
                num_puts := 0, num_deletes := 0, num_merges := 0\<rparr>
      in if db_allow_2pc ops then InitWriteBatch ops False t else t)"

lemma TxnBase_Clear_simps [simp]:
  "save_points (TxnBase_Clear ops t) = []" "tracked_locks (TxnBase_Clear ops t) = PointLockTracker_new"
  "num_puts (TxnBase_Clear ops t) = 0" "num_deletes (TxnBase_Clear ops t) = 0" "num_merges (TxnBase_Clear ops t) = 0"
  "snapshot (TxnBase_Clear ops t) = snapshot t" "snapshot_needed (TxnBase_Clear ops t) = snapshot_needed t"
  "snapshot_notifier (TxnBase_Clear ops t) = snapshot_notifier t" "log_number (TxnBase_Clear ops t) = log_number t"
  "txn_name (TxnBase_Clear ops t) = txn_name t" "seq_id (TxnBase_Clear ops t) = seq_id t"
  "TransactionBase.more (TxnBase_Clear ops t) = TransactionBase.more t"
  by (simp_all add: TxnBase_Clear_def InitWriteBatch_def Let_def Tracker_Clear_def PointLockTracker_new_def)

definition ClearSnapshot :: "('b, 'c, 't) TransactionBase_scheme \<Rightarrow> ('b, 'c, 't) TransactionBase_scheme" where
  "ClearSnapshot t = t\<lparr>snapshot := None, snapshot_needed := False, snapshot_notifier := None\<rparr>"

definition TxnBase_Reinitialize ::
  "('b, 'c, 'd) db_ops \<Rightarrow>
   (('b, 'c, 't) TransactionBase_scheme \<times> 'r \<Rightarrow> (('b, 'c, 't) TransactionBase_scheme \<times> 'r) outcome) \<Rightarrow>
   u64 \<Rightarrow> WriteOptions \<Rightarrow> ('b, 'c, 't) TransactionBase_scheme \<times> 'r \<Rightarrow>
   (('b, 'c, 't) TransactionBase_scheme \<times> 'r) outcome" where
  "TxnBase_Reinitialize ops clear now wo w =
     bind_outcome (clear w) (\<lambda>(t, r).
       let t = (ClearSnapshot t)\<lparr>seq_id := 0, txn_name := '''', log_number := 0, write_options := wo,
                  start_time := now, indexing_enabled := True\<rparr>;
           prot = protection_bytes_per_key wo
       in Returned (t\<lparr>write_batch := wbwi_UpdateProtectionInfo ops prot (write_batch t),
                     commit_time_batch := snd (wb_UpdateProtectionInfo ops prot (commit_time_batch t))\<rparr>, r))"

section \<open>Snapshots\<close>

definition SetSnapshotInternal ::
  "Snapshot option \<Rightarrow> ('b, 'c, 't) TransactionBase_scheme \<Rightarrow> ('b, 'c, 't) TransactionBase_scheme" where
  "SetSnapshotInternal s t = t\<lparr>snapshot := s, snapshot_needed := False, snapshot_notifier := None\<rparr>"

definition SetSnapshot ::
  "('b, 'c, 'd) db_ops \<Rightarrow> ('b, 'c, 't) TransactionBase_scheme \<times> ('d, 'm) db_world_scheme \<Rightarrow>
   ('b, 'c, 't) TransactionBase_scheme \<times> ('d, 'm) db_world_scheme" where
  "SetSnapshot ops = (\<lambda>(t, r).
     case db_GetSnapshotForWriteConflictBoundary ops (w_db r) of
       (s, d) \<Rightarrow> (SetSnapshotInternal s t, r\<lparr>w_db := d\<rparr>))"

definition SetSnapshotOnNextOperation ::
  "nat option \<Rightarrow> ('b, 'c, 't) TransactionBase_scheme \<Rightarrow> ('b, 'c, 't) TransactionBase_scheme" where
  "SetSnapshotOnNextOperation notifier t = t\<lparr>snapshot_needed := True, snapshot_notifier := notifier\<rparr>"

definition SetSnapshotIfNeeded ::
  "('b, 'c, 'd) db_ops \<Rightarrow> ('b, 'c, 't) TransactionBase_scheme \<times> ('d, 'm) db_world_scheme \<Rightarrow>
   ('b, 'c, 't) TransactionBase_scheme \<times> ('d, 'm) db_world_scheme" where
  "SetSnapshotIfNeeded ops = (\<lambda>(t, r).
     if snapshot_needed t
     then let notifier = snapshot_notifier t; (t, r) = SetSnapshot ops (t, r)
          in (case notifier of
                None \<Rightarrow> (t, r)
              | Some n \<Rightarrow> (t, r\<lparr>w_db := db_SnapshotCreated ops n (snapshot t) (w_db r)\<rparr>))
     else (t, r))"

section \<open>Save points and tracking\<close>

definition SavePoint_new :: "('b, 'c, 't) TransactionBase_scheme \<Rightarrow> SavePoint" where
  "SavePoint_new t = \<lparr>sp_snapshot = snapshot t, sp_snapshot_needed = snapshot_needed t,
     sp_snapshot_notifier = snapshot_notifier t, sp_num_puts = num_puts t, sp_num_deletes = num_deletes t,
     sp_num_merges = num_merges t, new_locks = PointLockTracker_new\<rparr>"

definition SetSavePoint ::
  "('b, 'c, 'd) db_ops \<Rightarrow> ('b, 'c, 't) TransactionBase_scheme \<Rightarrow> ('b, 'c, 't) TransactionBase_scheme" where
  "SetSavePoint ops t =
     t\<lparr>save_points := SavePoint_new t # save_points t, write_batch := wbwi_SetSavePoint ops (write_batch t)\<rparr>"

definition TxnBase_RollbackToSavePoint ::
  "('b, 'c, 'd) db_ops \<Rightarrow> ('b, 'c, 't) TransactionBase_scheme \<Rightarrow>
   (Status \<times> ('b, 'c, 't) TransactionBase_scheme) option" where
  "TxnBase_RollbackToSavePoint ops t =
     (case save_points t of
        [] \<Rightarrow> Some (NotFound kNone, t)
      | sp # sps \<Rightarrow>
          let t = t\<lparr>snapshot := sp_snapshot sp, snapshot_needed := sp_snapshot_needed sp,
                     snapshot_notifier := sp_snapshot_notifier sp, num_puts := sp_num_puts sp,
                     num_deletes := sp_num_deletes sp, num_merges := sp_num_merges sp\<rparr>
          in (case wbwi_RollbackToSavePoint ops (write_batch t) of
                (s, b) \<Rightarrow>
                  map_option (\<lambda>locks. (s, t\<lparr>write_batch := b, tracked_locks := locks, save_points := sps\<rparr>))
                    (Subtract (tracked_locks t) (new_locks sp))))"

definition PopSavePoint ::
  "('b, 'c, 'd) db_ops \<Rightarrow> ('b, 'c, 't) TransactionBase_scheme \<Rightarrow> Status \<times> ('b, 'c, 't) TransactionBase_scheme" where
  "PopSavePoint ops t =
     (case save_points t of
        [] \<Rightarrow> (NotFound kNone, t)
      | top_sp # sps \<Rightarrow>
          let sps = (case sps of
                       [] \<Rightarrow> []
                     | sp # sps \<Rightarrow> sp\<lparr>new_locks := Tracker_Merge (new_locks sp) (new_locks top_sp)\<rparr> # sps);
              (s, b) = wbwi_PopSavePoint ops (write_batch t)
          in (s, t\<lparr>save_points := sps, write_batch := b\<rparr>))"

definition TrackKey ::
  "ColumnFamilyId \<Rightarrow> string \<Rightarrow> SequenceNumber \<Rightarrow> bool \<Rightarrow> bool \<Rightarrow> ('b, 'c, 't) TransactionBase_scheme \<Rightarrow>
   ('b, 'c, 't) TransactionBase_scheme" where
  "TrackKey cf key seq read_only excl t =
     (let r = \<lparr>plr_column_family_id = cf, plr_key = key, plr_seq = seq, plr_read_only = read_only, plr_exclusive = excl\<rparr>;
          t = t\<lparr>tracked_locks := Track (tracked_locks t) r\<rparr>
      in (case save_points t of
            [] \<Rightarrow> t
          | sp # sps \<Rightarrow> t\<lparr>save_points := sp\<lparr>new_locks := Track (new_locks sp) r\<rparr> # sps\<rparr>))"

definition untrack_read :: "ColumnFamilyId \<Rightarrow> string \<Rightarrow> PointLockRequest" where
  "untrack_read cf key = \<lparr>plr_column_family_id = cf, plr_key = key, plr_seq = 0, plr_read_only = True, plr_exclusive = True\<rparr>"

text \<open>The part of \<^verbatim>\<open>UndoGetForUpdate\<close> that changes the trackers; it answers whether to unlock the key.\<close>

definition undo_tracking ::
  "ColumnFamilyId \<Rightarrow> string \<Rightarrow> ('b, 'c, 't) TransactionBase_scheme \<Rightarrow> bool \<times> ('b, 'c, 't) TransactionBase_scheme" where
  "undo_tracking cf key t =
     (let r = untrack_read cf key;
          (can_untrack, t) =
            (case save_points t of
               [] \<Rightarrow> (True, t)
             | sp # sps \<Rightarrow>
                 (case Untrack (new_locks sp) r of
                    (s, locks) \<Rightarrow> (s \<noteq> NOT_TRACKED, t\<lparr>save_points := sp\<lparr>new_locks := locks\<rparr> # sps\<rparr>)))
      in if can_untrack
         then case Untrack (tracked_locks t) r of
                (s, locks) \<Rightarrow> (s = REMOVED, t\<lparr>tracked_locks := locks\<rparr>)
         else (False, t))"

definition UndoGetForUpdate ::
  "('b, 'c, 'd) db_ops \<Rightarrow>
   (ColumnFamilyHandle option \<Rightarrow> string \<Rightarrow> ('b, 'c, 't) TransactionBase_scheme \<times> 'r \<Rightarrow>
     (('b, 'c, 't) TransactionBase_scheme \<times> 'r) outcome) \<Rightarrow>
   ColumnFamilyHandle option \<Rightarrow> string \<Rightarrow> ('b, 'c, 't) TransactionBase_scheme \<times> 'r \<Rightarrow>
   (('b, 'c, 't) TransactionBase_scheme \<times> 'r) outcome" where
  "UndoGetForUpdate ops unlock cf key = (\<lambda>(t, r).
     case undo_tracking (db_GetColumnFamilyID ops cf) key t of
       (can_unlock, t) \<Rightarrow> if can_unlock then unlock cf key (t, r) else Returned (t, r))"

section \<open>Reads\<close>

type_synonym ('w) try_lock_method =
  "ColumnFamilyHandle option \<Rightarrow> string \<Rightarrow> bool \<Rightarrow> bool \<Rightarrow> bool \<Rightarrow> bool \<Rightarrow> 'w \<Rightarrow> (Status \<times> 'w) outcome"

definition TxnBase_Get ::
  "('b, 'c, 'd) db_ops \<Rightarrow> ReadOptions \<Rightarrow> ColumnFamilyHandle option \<Rightarrow> string \<Rightarrow>
   ('b, 'c, 't) TransactionBase_scheme \<times> ('d, 'm) db_world_scheme \<Rightarrow> Status \<times> string" where
  "TxnBase_Get ops ro cf key = (\<lambda>(t, r). db_GetFromBatchAndDB ops ro cf key (write_batch t) (w_db r))"

definition TxnBase_GetForUpdate ::
  "('b, 'c, 'd) db_ops \<Rightarrow> (('b, 'c, 't) TransactionBase_scheme \<times> ('d, 'm) db_world_scheme) try_lock_method \<Rightarrow>
   ReadOptions \<Rightarrow> ColumnFamilyHandle option \<Rightarrow> string \<Rightarrow> bool \<Rightarrow> bool \<Rightarrow> bool \<Rightarrow>
   ('b, 'c, 't) TransactionBase_scheme \<times> ('d, 'm) db_world_scheme \<Rightarrow>
   (Status \<times> string \<times> ('b, 'c, 't) TransactionBase_scheme \<times> ('d, 'm) db_world_scheme) outcome" where
  "TxnBase_GetForUpdate ops try_lock ro cf key want_value excl do_validate w =
     (if \<not> do_validate \<and> ro_snapshot ro \<noteq> None
      then Returned (InvalidArgument_msg
             ''If do_validate is false then GetForUpdate with snapshot is not defined.'' '''', '''', w)
      else bind_outcome (try_lock cf key True excl do_validate False w) (\<lambda>(s, w).
             if ok s \<and> want_value
             then case TxnBase_Get ops ro cf key w of (s, v) \<Rightarrow> Returned (s, v, w)
             else Returned (s, '''', w)))"

definition TxnBase_MultiGet ::
  "('b, 'c, 'd) db_ops \<Rightarrow> ReadOptions \<Rightarrow> (ColumnFamilyHandle option \<times> string) list \<Rightarrow>
   ('b, 'c, 't) TransactionBase_scheme \<times> ('d, 'm) db_world_scheme \<Rightarrow> (Status \<times> string) list" where
  "TxnBase_MultiGet ops ro keys w = map (\<lambda>(cf, key). TxnBase_Get ops ro cf key w) keys"

text \<open>The locking loop of \<^verbatim>\<open>MultiGetForUpdate\<close>: the first status that is not a success ends it.\<close>

fun lock_all ::
  "'w try_lock_method \<Rightarrow> (ColumnFamilyHandle option \<times> string) list \<Rightarrow> 'w \<Rightarrow> (Status \<times> 'w) outcome" where
  "lock_all try_lock [] w = Returned (OK, w)"
| "lock_all try_lock ((cf, key) # keys) w =
     bind_outcome (try_lock cf key True True True False w) (\<lambda>(s, w).
       if \<not> ok s then Returned (s, w) else lock_all try_lock keys w)"

definition TxnBase_MultiGetForUpdate ::
  "('b, 'c, 'd) db_ops \<Rightarrow> (('b, 'c, 't) TransactionBase_scheme \<times> ('d, 'm) db_world_scheme) try_lock_method \<Rightarrow>
   ReadOptions \<Rightarrow> (ColumnFamilyHandle option \<times> string) list \<Rightarrow>
   ('b, 'c, 't) TransactionBase_scheme \<times> ('d, 'm) db_world_scheme \<Rightarrow>
   ((Status \<times> string) list \<times> ('b, 'c, 't) TransactionBase_scheme \<times> ('d, 'm) db_world_scheme) outcome" where
  "TxnBase_MultiGetForUpdate ops try_lock ro keys w =
     bind_outcome (lock_all try_lock keys w) (\<lambda>(s, w).
       Returned (if \<not> ok s then replicate (length keys) (s, '''') else TxnBase_MultiGet ops ro keys w, w))"

section \<open>Writes\<close>

datatype op_counter = count_puts | count_deletes | count_merges

fun bump :: "op_counter \<Rightarrow> ('b, 'c, 't) TransactionBase_scheme \<Rightarrow> ('b, 'c, 't) TransactionBase_scheme" where
  "bump count_puts t = t\<lparr>num_puts := num_puts t + 1\<rparr>"
| "bump count_deletes t = t\<lparr>num_deletes := num_deletes t + 1\<rparr>"
| "bump count_merges t = t\<lparr>num_merges := num_merges t + 1\<rparr>"

definition GetBatchForWrite :: "('b, 'c, 't) TransactionBase_scheme \<Rightarrow> batch_ref" where
  "GetBatchForWrite t = (if indexing_enabled t then with_index else without_index)"

definition batch_op ::
  "('b, 'c, 'o) batch_ops_scheme \<Rightarrow> batch_write \<Rightarrow> op_counter \<Rightarrow> ('b, 'c, 't) TransactionBase_scheme \<Rightarrow>
   Status \<times> ('b, 'c, 't) TransactionBase_scheme" where
  "batch_op ops op counter t =
     (case wbwi_write ops (GetBatchForWrite t) op (write_batch t) of
        (s, b) \<Rightarrow> (s, let t = t\<lparr>write_batch := b\<rparr> in if ok s then bump counter t else t))"

text \<open>The common body of the writes: lock the key, write to the batch, count.\<close>

definition locked_write ::
  "('b, 'c, 'd) db_ops \<Rightarrow> (('b, 'c, 't) TransactionBase_scheme \<times> 'r) try_lock_method \<Rightarrow>
   ColumnFamilyHandle option \<Rightarrow> slice \<Rightarrow> bool \<Rightarrow> bool \<Rightarrow> batch_write \<Rightarrow> op_counter \<Rightarrow>
   ('b, 'c, 't) TransactionBase_scheme \<times> 'r \<Rightarrow> (Status \<times> ('b, 'c, 't) TransactionBase_scheme \<times> 'r) outcome" where
  "locked_write ops try_lock cf key do_validate assume_tracked op counter w =
     bind_outcome (try_lock cf (contiguous key) False True do_validate assume_tracked w) (\<lambda>(s, t, r).
       if ok s then case batch_op ops op counter t of (s, t) \<Rightarrow> Returned (s, t, r) else Returned (s, t, r))"

definition TxnBase_Put where
  "TxnBase_Put ops try_lock cf key value assume_tracked =
     locked_write ops try_lock cf key (\<not> assume_tracked) assume_tracked (Batch_Put cf key value) count_puts"

definition TxnBase_Merge where
  "TxnBase_Merge ops try_lock cf key value assume_tracked =
     locked_write ops try_lock cf key (\<not> assume_tracked) assume_tracked (Batch_Merge cf key value) count_merges"

definition TxnBase_Delete where
  "TxnBase_Delete ops try_lock cf key assume_tracked =
     locked_write ops try_lock cf key (\<not> assume_tracked) assume_tracked (Batch_Delete cf key) count_deletes"

definition TxnBase_SingleDelete where
  "TxnBase_SingleDelete ops try_lock cf key assume_tracked =
     locked_write ops try_lock cf key (\<not> assume_tracked) assume_tracked (Batch_SingleDelete cf key) count_deletes"

definition TxnBase_PutUntracked where
  "TxnBase_PutUntracked ops try_lock cf key value =
     locked_write ops try_lock cf key False False (Batch_Put cf key value) count_puts"

definition TxnBase_MergeUntracked where
  "TxnBase_MergeUntracked ops try_lock cf key value =
     locked_write ops try_lock cf key False False (Batch_Merge cf key value) count_merges"

definition TxnBase_DeleteUntracked where
  "TxnBase_DeleteUntracked ops try_lock cf key =
     locked_write ops try_lock cf key False False (Batch_Delete cf key) count_deletes"

definition TxnBase_SingleDeleteUntracked where
  "TxnBase_SingleDeleteUntracked ops try_lock cf key =
     locked_write ops try_lock cf key False False (Batch_SingleDelete cf key) count_deletes"

definition TxnBase_PutLogData ::
  "('b, 'c, 'd) db_ops \<Rightarrow> string \<Rightarrow> ('b, 'c, 't) TransactionBase_scheme \<Rightarrow> ('b, 'c, 't) TransactionBase_scheme" where
  "TxnBase_PutLogData ops blob t = t\<lparr>write_batch := snd (wbwi_PutLogData ops blob (write_batch t))\<rparr>"

definition GetElapsedTime :: "u64 \<Rightarrow> ('b, 'c, 't) TransactionBase_scheme \<Rightarrow> u64" where
  "GetElapsedTime now t = (now - start_time t) div 1000"

definition GetNumKeys :: "('b, 'c, 't) TransactionBase_scheme \<Rightarrow> u64" where
  "GetNumKeys t = GetNumPointLocks (tracked_locks t)"

section \<open>Rebuilding from a batch\<close>

text \<open>
  The handler \<^verbatim>\<open>IndexedWriteBatchBuilder\<close> replays the writes of a batch on the transaction. The writes
  are virtual methods, here the fields of \<open>txn_writes\<close>.
\<close>

record 'w txn_writes =
  tw_Put :: "ColumnFamilyHandle option \<Rightarrow> string \<Rightarrow> string \<Rightarrow> 'w \<Rightarrow> (Status \<times> 'w) outcome"
  tw_Delete :: "ColumnFamilyHandle option \<Rightarrow> string \<Rightarrow> 'w \<Rightarrow> (Status \<times> 'w) outcome"
  tw_SingleDelete :: "ColumnFamilyHandle option \<Rightarrow> string \<Rightarrow> 'w \<Rightarrow> (Status \<times> 'w) outcome"
  tw_Merge :: "ColumnFamilyHandle option \<Rightarrow> string \<Rightarrow> string \<Rightarrow> 'w \<Rightarrow> (Status \<times> 'w) outcome"

fun IndexedWriteBatchBuilder ::
  "(ColumnFamilyId \<Rightarrow> ColumnFamilyHandle option) \<Rightarrow> 'w txn_writes \<Rightarrow> batch_event \<Rightarrow> 'w \<Rightarrow> (Status \<times> 'w) outcome" where
  "IndexedWriteBatchBuilder h txn (PutCF cf key val) w = tw_Put txn (h cf) key val w"
| "IndexedWriteBatchBuilder h txn (DeleteCF cf key) w = tw_Delete txn (h cf) key w"
| "IndexedWriteBatchBuilder h txn (SingleDeleteCF cf key) w = tw_SingleDelete txn (h cf) key w"
| "IndexedWriteBatchBuilder h txn (MergeCF cf key val) w = tw_Merge txn (h cf) key val w"
| "IndexedWriteBatchBuilder h txn (MarkBeginPrepare unprep) w = Returned (InvalidArgument kNone, w)"
| "IndexedWriteBatchBuilder h txn (MarkEndPrepare xid) w = Returned (InvalidArgument kNone, w)"
| "IndexedWriteBatchBuilder h txn (MarkCommit xid) w = Returned (InvalidArgument kNone, w)"
| "IndexedWriteBatchBuilder h txn (MarkCommitWithTimestamp xid ts) w = Returned (InvalidArgument kNone, w)"
| "IndexedWriteBatchBuilder h txn (MarkRollback xid) w = Returned (InvalidArgument kNone, w)"
| "IndexedWriteBatchBuilder h txn e w = Returned (Handler_default e, w)"

fun replay :: "(batch_event \<Rightarrow> 'w \<Rightarrow> (Status \<times> 'w) outcome) \<Rightarrow> batch_event list \<Rightarrow> Status \<Rightarrow> 'w \<Rightarrow> (Status \<times> 'w) outcome" where
  "replay handler [] final w = Returned (final, w)"
| "replay handler (e # es) final w =
     bind_outcome (handler e w) (\<lambda>(s, w). if ok s then replay handler es final w else Returned (s, w))"

definition RebuildFromWriteBatch ::
  "('b, 'c, 'd) db_ops \<Rightarrow>
   (('b, 'c, 't) TransactionBase_scheme \<times> ('d, 'm) db_world_scheme) txn_writes \<Rightarrow> 'c \<Rightarrow>
   ('b, 'c, 't) TransactionBase_scheme \<times> ('d, 'm) db_world_scheme \<Rightarrow>
   (Status \<times> ('b, 'c, 't) TransactionBase_scheme \<times> ('d, 'm) db_world_scheme) outcome" where
  "RebuildFromWriteBatch ops txn src_batch w =
     (case wb_Iterate ops src_batch of
        (es, final) \<Rightarrow> replay (IndexedWriteBatchBuilder (db_GetColumnFamilyHandle ops (w_db (snd w))) txn) es final w)"

section \<open>Commit with a snapshot\<close>

text \<open>\<^verbatim>\<open>Transaction::CommitAndTryCreateSnapshot\<close>; the methods it calls are virtual.\<close>

definition CommitAndTryCreateSnapshot ::
  "(('b, 'c, 't) TransactionBase_scheme \<times> 'r \<Rightarrow> TxnTimestamp) \<Rightarrow>
   (TxnTimestamp \<Rightarrow> ('b, 'c, 't) TransactionBase_scheme \<times> 'r \<Rightarrow> Status \<times> ('b, 'c, 't) TransactionBase_scheme \<times> 'r) \<Rightarrow>
   (('b, 'c, 't) TransactionBase_scheme \<times> 'r \<Rightarrow> (Status \<times> ('b, 'c, 't) TransactionBase_scheme \<times> 'r) outcome) \<Rightarrow>
   nat option \<Rightarrow> TxnTimestamp \<Rightarrow> ('b, 'c, 't) TransactionBase_scheme \<times> 'r \<Rightarrow>
   (Status \<times> Snapshot option \<times> ('b, 'c, 't) TransactionBase_scheme \<times> 'r) outcome" where
  "CommitAndTryCreateSnapshot get_commit_ts set_commit_ts commit notifier ts w =
     (let commit_ts = get_commit_ts w;
          (s, w) =
            (if commit_ts = kMaxTxnTimestamp
             then if ts = kMaxTxnTimestamp then (InvalidArgument_msg ''Commit timestamp unset'' '''', w)
                  else set_commit_ts ts w
             else if ts \<noteq> kMaxTxnTimestamp \<and> ts \<noteq> commit_ts
             then (InvalidArgument_msg ''Different commit ts specified'' '''', w)
             else (OK, w))
      in if \<not> ok s then Returned (s, None, w)
         else bind_outcome (commit (SetSnapshotOnNextOperation notifier (fst w), snd w)) (\<lambda>(s, t, r).
                Returned (if ok s then (OK, snapshot t, t, r) else (s, None, t, r))))"

end
