(* ===== verification/Txn_Util.thy ===== *)
theory Txn_Util
  imports Txn_Types
begin

text \<open>
  \<^verbatim>\<open>TransactionUtil\<close> (\<^verbatim>\<open>utilities/transactions/transaction_util.cc\<close>): was a key written after a sequence
  number? The memtables answer if they reach back far enough, otherwise the files are read, unless the
  caller asked for the memtables only.
\<close>

definition CheckKey ::
  "('b, 'c, 'd) db_ops \<Rightarrow> 'd \<Rightarrow> ColumnFamilyId \<Rightarrow> SequenceNumber \<Rightarrow> SequenceNumber \<Rightarrow> string \<Rightarrow> byte list option \<Rightarrow>
   bool \<Rightarrow> (SequenceNumber \<Rightarrow> bool) option \<Rightarrow> SequenceNumber \<Rightarrow> Status" where
  "CheckKey ops d cf earliest_seq snap_seq key read_ts cache_only snap_checker min_uncommitted =
     (let (need_to_read_sst, result) =
            (if earliest_seq = db_kMaxSequenceNumber ops
             then (True,
                   if cache_only
                   then TryAgain_msg (''Transaction could not check for conflicts as the MemTable does not '' @
                          ''contain a long enough history to check write at SequenceNumber: '')
                          (decimal (unat snap_seq))
                   else OK)
             else if snap_seq < earliest_seq \<or> min_uncommitted \<le> earliest_seq
             then (True,
                   if cache_only
                   then TryAgain_msg (''Transaction could not check for conflicts for operation at SequenceNumber '' @
                          decimal (unat snap_seq) @ '' as the MemTable only contains changes newer than SequenceNumber '' @
                          decimal (unat earliest_seq) @ ''.  Increasing the value of the '' @
                          ''max_write_buffer_size_to_maintain option could reduce the frequency of this error.'') ''''
                   else OK)
             else (False, OK))
      in if \<not> ok result then result
         else
           let lower_bound_seq = (if min_uncommitted = db_kMaxSequenceNumber ops then snap_seq else min_uncommitted);
               (s, seq, timestamp, found_record_for_key) =
                 db_GetLatestSequenceForKey ops d cf key (\<not> need_to_read_sst) lower_bound_seq
           in if \<not> (ok s \<or> IsNotFound s \<or> IsMergeInProgress s) then s
              else if found_record_for_key
              then let write_conflict = (case snap_checker of None \<Rightarrow> snap_seq < seq | Some visible \<Rightarrow> \<not> visible seq);
                       write_conflict =
                         (case read_ts of
                            Some ts \<Rightarrow> write_conflict \<or> db_CompareTimestamp ops cf ts timestamp < 0
                          | None \<Rightarrow> write_conflict)
                   in if write_conflict then Busy kNone else OK
              else OK)"

definition CheckKeyForConflicts ::
  "('b, 'c, 'd) db_ops \<Rightarrow> 'd \<Rightarrow> ColumnFamilyHandle \<Rightarrow> string \<Rightarrow> SequenceNumber \<Rightarrow> byte list option \<Rightarrow> bool \<Rightarrow>
   (SequenceNumber \<Rightarrow> bool) option \<Rightarrow> SequenceNumber \<Rightarrow> Status" where
  "CheckKeyForConflicts ops d cfh key snap_seq read_ts cache_only snap_checker min_uncommitted =
     (if \<not> db_HasSuperVersion ops d (cfh_id cfh)
      then InvalidArgument_msg (''Could not access column family '' @ cfh_name cfh) ''''
      else CheckKey ops d (cfh_id cfh) (db_GetEarliestMemTableSequenceNumber ops d (cfh_id cfh)) snap_seq key
             read_ts cache_only snap_checker min_uncommitted)"

fun check_keys ::
  "('b, 'c, 'd) db_ops \<Rightarrow> 'd \<Rightarrow> TrackedKeys \<Rightarrow> bool \<Rightarrow> ColumnFamilyId \<Rightarrow> SequenceNumber \<Rightarrow> string list \<Rightarrow> Status" where
  "check_keys ops d tracker cache_only cf earliest_seq [] = OK"
| "check_keys ops d tracker cache_only cf earliest_seq (key # keys) =
     (let status = Tracker_GetPointLockStatus tracker cf key;
          result = CheckKey ops d cf earliest_seq (pls_seq status) key None cache_only None (db_kMaxSequenceNumber ops)
      in if \<not> ok result then result else check_keys ops d tracker cache_only cf earliest_seq keys)"

fun check_cfs :: "('b, 'c, 'd) db_ops \<Rightarrow> 'd \<Rightarrow> TrackedKeys \<Rightarrow> bool \<Rightarrow> ColumnFamilyId list \<Rightarrow> Status option" where
  "check_cfs ops d tracker cache_only [] = Some OK"
| "check_cfs ops d tracker cache_only (cf # cfs) =
     (if \<not> db_HasSuperVersion ops d cf
      then Some (InvalidArgument_msg (''Could not access column family '' @ decimal (unat cf)) '''')
      else case GetKeyIterator tracker cf of
             None \<Rightarrow> None
           | Some keys \<Rightarrow>
               let result = check_keys ops d tracker cache_only cf (db_GetEarliestMemTableSequenceNumber ops d cf) keys
               in if \<not> ok result then Some result else check_cfs ops d tracker cache_only cfs)"

text \<open>\<^const>\<open>None\<close> stands for dereferencing a null key iterator.\<close>

definition CheckKeysForConflicts :: "('b, 'c, 'd) db_ops \<Rightarrow> 'd \<Rightarrow> TrackedKeys \<Rightarrow> bool \<Rightarrow> Status option" where
  "CheckKeysForConflicts ops d tracker cache_only =
     check_cfs ops d tracker cache_only (GetColumnFamilyIterator tracker)"

section \<open>Soundness of the check\<close>

text \<open>
  What is relied on of \<^verbatim>\<open>DBImpl::GetLatestSequenceForKey\<close>: \<open>hist key\<close> are the sequence numbers of the
  writes to the key. A record it finds is the latest write. Writes it does not account for are not
  newer than the lower bound it was given, or, when it reads the memtables only, not newer than what
  the memtables contain.
\<close>

definition latest_sequence_law ::
  "('b, 'c, 'd) db_ops \<Rightarrow> 'd \<Rightarrow> ColumnFamilyId \<Rightarrow> (string \<Rightarrow> SequenceNumber set) \<Rightarrow> bool" where
  "latest_sequence_law ops d cf hist \<longleftrightarrow>
     (\<forall>key cache_only lower s seq ts found.
        db_GetLatestSequenceForKey ops d cf key cache_only lower = (s, seq, ts, found) \<longrightarrow>
        ok s \<or> IsNotFound s \<or> IsMergeInProgress s \<longrightarrow>
        (found \<longrightarrow> seq \<in> hist key) \<and>
        (\<forall>q\<in>hist key. (found \<and> q \<le> seq) \<or> q \<le> lower \<or>
           (cache_only \<and> q \<le> db_GetEarliestMemTableSequenceNumber ops d cf)))"

lemma CheckKey_sound:
  assumes law: "latest_sequence_law ops d cf hist"
    and ok: "ok (CheckKey ops d cf (db_GetEarliestMemTableSequenceNumber ops d cf) snap_seq key read_ts cache_only None
               (db_kMaxSequenceNumber ops))"
    and q: "q \<in> hist key"
  shows "q \<le> snap_seq"
proof -
  let ?e = "db_GetEarliestMemTableSequenceNumber ops d cf"
  define need where "need = (?e = db_kMaxSequenceNumber ops \<or> snap_seq < ?e \<or> db_kMaxSequenceNumber ops \<le> ?e)"
  obtain s seq ts found where g: "db_GetLatestSequenceForKey ops d cf key (\<not> need) snap_seq = (s, seq, ts, found)"
    by (metis prod_cases4)
  have tag: "ok OK" "\<not> ok (TryAgain_msg a b)" "\<not> ok (Busy kNone)" for a b by (simp_all add: status_simps)
  let ?check = "CheckKey ops d cf ?e snap_seq key read_ts cache_only None (db_kMaxSequenceNumber ops)"
  have "need \<and> cache_only \<Longrightarrow> \<not> ok ?check" unfolding CheckKey_def by (auto simp: need_def tag)
  with ok have read: "\<not> (need \<and> cache_only)" by blast
  have check: "\<not> (need \<and> cache_only) \<Longrightarrow> ?check =
    (if \<not> (ok s \<or> IsNotFound s \<or> IsMergeInProgress s) then s
     else if found \<and> (snap_seq < seq \<or> (\<exists>rt. read_ts = Some rt \<and> db_CompareTimestamp ops cf rt ts < 0)) then Busy kNone else OK)"
    unfolding CheckKey_def
    by (cases "?e = db_kMaxSequenceNumber ops"; cases "snap_seq < ?e \<or> db_kMaxSequenceNumber ops \<le> ?e"; cases read_ts)
      (use g in \<open>simp_all add: need_def tag Let_def\<close>)
  from ok [unfolded check [OF read]] have s: "ok s \<or> IsNotFound s \<or> IsMergeInProgress s" and seq: "found \<longrightarrow> seq \<le> snap_seq"
    using tag(3) by (auto simp: not_less split: if_splits)
  have "(found \<and> q \<le> seq) \<or> q \<le> snap_seq \<or> (\<not> need \<and> q \<le> ?e)"
    using law g s q unfolding latest_sequence_law_def by blast
  moreover have "\<not> need \<Longrightarrow> ?e \<le> snap_seq" by (simp add: need_def not_less)
  ultimately show ?thesis using seq by (meson order_trans)
qed

lemma check_keys_sound:
  assumes "latest_sequence_law ops d cf hist"
    and "ok (check_keys ops d tracker cache_only cf (db_GetEarliestMemTableSequenceNumber ops d cf) keys)"
    and "key \<in> set keys" "q \<in> hist key"
  shows "q \<le> pls_seq (Tracker_GetPointLockStatus tracker cf key)"
  using assms(2,3)
proof (induction keys)
  case (Cons k keys)
  then show ?case using CheckKey_sound [OF assms(1) _ assms(4)] by (auto simp: Let_def split: if_splits)
qed simp

lemma check_cfs_sound:
  assumes "\<And>cf. latest_sequence_law ops d cf (hist cf)"
    and "check_cfs ops d tracker cache_only cfs = Some s" "ok s" "cf \<in> set cfs" "map_of tracker cf = Some keys"
    and "key \<in> set (map fst keys)" "q \<in> hist cf key"
  shows "q \<le> pls_seq (Tracker_GetPointLockStatus tracker cf key)"
  using assms(2,4)
proof (induction cfs)
  case (Cons c cfs)
  have "\<not> ok (InvalidArgument_msg a b)" for a b by (simp add: status_simps)
  then obtain ks where ks: "GetKeyIterator tracker c = Some ks"
    "ok (check_keys ops d tracker cache_only c (db_GetEarliestMemTableSequenceNumber ops d c) ks)"
    "check_cfs ops d tracker cache_only cfs = Some s"
    using Cons.prems(1) assms(3) by (auto simp: Let_def split: if_splits option.splits)
  show ?case
  proof (cases "c = cf")
    case True
    with ks(1) assms(5,6) have "key \<in> set ks" by (auto simp: GetKeyIterator_def)
    with check_keys_sound [OF assms(1) ks(2) _ ] assms(7) True show ?thesis by blast
  next
    case False
    with Cons.IH [OF ks(3)] Cons.prems(2) show ?thesis by simp
  qed
qed simp

section \<open>Properties\<close>

text \<open>
  C30: A transaction whose keys pass the check has no conflicts. If the check of all tracked keys
  succeeds, no tracked key of any column family was written after the sequence number the transaction
  tracked it at.
\<close>

theorem conflict_check_sound:
  assumes "\<And>cf. latest_sequence_law ops d cf (hist cf)"
    and "CheckKeysForConflicts ops d tracker cache_only = Some s" "ok s"
    and "tracked_at tracker cf key = Some info" "q \<in> hist cf key"
  shows "q \<le> tki_seq info"
proof -
  obtain keys where keys: "map_of tracker cf = Some keys" "map_of keys key = Some info"
    using assms(4) by (auto simp: tracked_at_def bind_eq_Some_conv)
  then have "cf \<in> set (GetColumnFamilyIterator tracker)" "key \<in> set (map fst keys)"
    unfolding GetColumnFamilyIterator_def by (metis map_of_eq_None_iff option.distinct(1) list.set_map)+
  from check_cfs_sound [OF assms(1) assms(2) [unfolded CheckKeysForConflicts_def] assms(3) this(1) keys(1) this(2) assms(5)]
  show ?thesis using keys by (simp add: Tracker_GetPointLockStatus_def)
qed

abbreviation checked_db :: "(batch_write list \<times> nat list, batch_event list, u64 \<times> batch_event list list) db_ops" where
  "checked_db \<equiv> list_db\<lparr>db_GetLatestSequenceForKey := \<lambda>_ cf k _ _.
     if k = ''k'' then (OK, 3, [], True) else (NotFound kNone, 0, [], False)\<rparr>"

theorem conflict_check_sound_witness:
  "CheckKeysForConflicts checked_db (7, [])
     [(0, [(''k'', \<lparr>tki_seq = 5, tki_num_writes = 1, tki_num_reads = 0, tki_exclusive = True\<rparr>)])] True = Some OK \<and> (3 :: u64) \<le> 5"
proof
  let ?i = "\<lparr>tki_seq = 5, tki_num_writes = 1, tki_num_reads = 0, tki_exclusive = True\<rparr>"
  show c: "CheckKeysForConflicts checked_db (7, []) [(0, [(''k'', ?i)])] True = Some OK"
    by (simp add: CheckKeysForConflicts_def GetColumnFamilyIterator_def GetKeyIterator_def Tracker_GetPointLockStatus_def
        CheckKey_def list_db_def status_simps Let_def)
  have "latest_sequence_law checked_db (7, []) cf (\<lambda>k. if k = ''k'' then {3} else {})" for cf
    by (auto simp: latest_sequence_law_def)
  from conflict_check_sound [OF this c, of 0 "''k''" ?i 3] show "(3 :: u64) \<le> 5"
    by (simp add: tracked_at_def status_simps)
qed

end
