(* ===== verification/FastRange.thy ===== *)
theory FastRange
  imports Prelude
begin

unbundle bit_operations_syntax

text \<open>
  \<^verbatim>\<open>util/fastrange.h\<close>: mapping a hash value to a range by a widening multiplication. The lock manager
  picks the stripe of a key with the 64-bit variant. Both compilations of the 64-bit variant are
  modelled: the one that uses the compiler's 128-bit integers and the portable decomposition into
  32-bit halves.
\<close>

definition FastRangeGeneric_u32 :: "u32 \<Rightarrow> u32 \<Rightarrow> u32" where
  "FastRangeGeneric_u32 hash rng =
     (let product = (ucast rng :: u64) * ucast hash
      in ucast (drop_bit 32 product))"

definition FastRangeGeneric_u64 :: "u64 \<Rightarrow> u64 \<Rightarrow> u64" where
  "FastRangeGeneric_u64 hash rng =
     (let wide = (ucast rng :: 128 word) * ucast hash
      in ucast (drop_bit 64 wide))"

definition FastRangeGeneric_u64_portable :: "u64 \<Rightarrow> u64 \<Rightarrow> u64" where
  "FastRangeGeneric_u64_portable hash rng =
     (let range64 = rng;
          tmp = (range64 AND 0xffffFFFF) * (hash AND 0xffffFFFF);
          tmp = drop_bit 32 tmp;
          tmp = tmp + (range64 AND 0xffffFFFF) * drop_bit 32 hash;
          tmp2 = drop_bit 32 range64 * (hash AND 0xffffFFFF);
          tmp = tmp + ucast (ucast tmp2 :: u32);
          tmp = drop_bit 32 tmp;
          tmp = tmp + drop_bit 32 tmp2;
          tmp = tmp + drop_bit 32 range64 * drop_bit 32 hash
      in tmp)"

definition FastRange64 :: "u64 \<Rightarrow> u64 \<Rightarrow> u64" where
  "FastRange64 hash rng = FastRangeGeneric_u64 hash rng"

definition FastRange32 :: "u32 \<Rightarrow> u32 \<Rightarrow> u32" where
  "FastRange32 hash rng = FastRangeGeneric_u32 hash rng"

section \<open>The value computed\<close>

lemma unat_less_up: "LENGTH('a::len) \<le> n \<Longrightarrow> unat (x :: 'a word) < 2 ^ n"
  using unsigned_less [of x, where 'a = nat] order_less_le_trans power_increasing
  by (metis one_le_numeral)

lemma unat_drop: "unat (drop_bit n x) = unat x div 2 ^ n"
  by (subst unat_drop_bit_eq) (simp add: drop_bit_eq_div)

lemma unat_ucast_down: "unat (ucast x :: 'b::len word) = unat x mod 2 ^ LENGTH('b)"
  by (simp add: unsigned_ucast_eq take_bit_eq_mod)

lemma unat_ucast_up:
  "LENGTH('a::len) \<le> LENGTH('b::len) \<Longrightarrow> unat (ucast (x :: 'a word) :: 'b word) = unat x"
  by (simp add: unsigned_ucast_eq take_bit_nat_eq_self_iff unat_less_up)

lemma div_scaled_less: "(r :: nat) * h div m < r" if "h < m" "0 < r"
  using that by (simp add: less_mult_imp_div_less)

lemma unat_FastRange64: "unat (FastRange64 h r) = unat r * unat h div 2 ^ 64"
proof -
  have lt: "unat r < 2 ^ 64" "unat h < 2 ^ 64"
    using unsigned_less [of r] unsigned_less [of h] by auto
  then have prod: "unat r * unat h < 2 ^ 128"
    using mult_strict_mono' [of "unat r" "2 ^ 64" "unat h" "2 ^ 64"] by simp
  then have wide: "unat ((ucast r :: 128 word) * ucast h) = unat r * unat h"
    by (simp add: unat_word_ariths unat_ucast_up)
  have "unat r * unat h div 2 ^ 64 < 2 ^ 64"
    using prod by (simp add: less_mult_imp_div_less)
  then show ?thesis
    by (simp add: FastRange64_def FastRangeGeneric_u64_def unat_ucast_down unat_drop wide)
qed

lemma unat_FastRange32: "unat (FastRange32 h r) = unat r * unat h div 2 ^ 32"
proof -
  have lt: "unat r < 2 ^ 32" "unat h < 2 ^ 32"
    using unsigned_less [of r] unsigned_less [of h] by auto
  then have prod: "unat r * unat h < 2 ^ 64"
    using mult_strict_mono' [of "unat r" "2 ^ 32" "unat h" "2 ^ 32"] by simp
  then have wide: "unat ((ucast r :: u64) * ucast h) = unat r * unat h"
    by (simp add: unat_word_ariths unat_ucast_up)
  have "unat r * unat h div 2 ^ 32 < 2 ^ 32"
    using prod by (simp add: less_mult_imp_div_less)
  then show ?thesis
    by (simp add: FastRange32_def FastRangeGeneric_u32_def unat_ucast_down unat_drop wide)
qed

section \<open>The decomposition into halves\<close>

lemma halves_div:
  fixes rh rl hh hl B :: nat
  assumes "0 < B"
  shows "(rh * B + rl) * (hh * B + hl) div (B * B) =
    (rl * hl div B + rl * hh + rh * hl mod B) div B + rh * hl div B + rh * hh"
proof -
  have "(rh * B + rl) * (hh * B + hl) = (rh * hl + rl * hh + rh * hh * B) * B + rl * hl"
    by (simp add: algebra_simps)
  then have "(rh * B + rl) * (hh * B + hl) div B = rh * hl + rl * hh + rh * hh * B + rl * hl div B"
    using assms by simp
  also have "\<dots> = (rl * hl div B + rl * hh + rh * hl mod B) + (rh * hl div B + rh * hh) * B"
    by (simp add: algebra_simps)
  finally show ?thesis
    using assms by (simp add: div_mult2_eq)
qed

lemma half_less: "unat (x AND 0xffffFFFF :: u64) < 2 ^ 32" "unat (drop_bit 32 x :: u64) < 2 ^ 32"
proof -
  have "x AND 0xffffFFFF = x AND mask 32" by (simp add: mask_eq_exp_minus_1)
  then have "unat (x AND 0xffffFFFF) = unat x mod 2 ^ 32"
    by (simp flip: take_bit_eq_mask add: unsigned_take_bit_eq) (simp add: take_bit_eq_mod)
  then show "unat (x AND 0xffffFFFF :: u64) < 2 ^ 32" by simp
  have "unat x < 2 ^ 64" using unsigned_less [of x] by simp
  then show "unat (drop_bit 32 x :: u64) < 2 ^ 32"
    by (simp only: unat_drop) (simp add: less_mult_imp_div_less)
qed

lemma halves_eq: "unat x = unat (drop_bit 32 x :: u64) * 2 ^ 32 + unat (x AND 0xffffFFFF)"
proof -
  have "x AND 0xffffFFFF = x AND mask 32" by (simp add: mask_eq_exp_minus_1)
  then have "unat (x AND 0xffffFFFF) = unat x mod 2 ^ 32"
    by (simp flip: take_bit_eq_mask add: unsigned_take_bit_eq) (simp add: take_bit_eq_mod)
  then show ?thesis by (simp only: unat_drop) simp
qed

lemma half_prod: "a < 2 ^ 32 \<Longrightarrow> b < 2 ^ 32 \<Longrightarrow> a * b \<le> (2 ^ 32 - 1) * (2 ^ 32 - 1 :: nat)"
  by (intro mult_le_mono) auto

lemma unat_plus_small: "unat a + unat b < 2 ^ 64 \<Longrightarrow> unat (a + b :: u64) = unat a + unat b"
  by (simp add: unat_word_ariths)

lemma unat_times_small: "unat a * unat b < 2 ^ 64 \<Longrightarrow> unat (a * b :: u64) = unat a * unat b"
  by (simp add: unat_word_ariths)

lemma unat_low_u32: "unat (ucast (ucast (x :: u64) :: u32) :: u64) = unat x mod 2 ^ 32"
  by (simp add: unat_ucast_up unat_ucast_down)

lemma portable_unat:
  "unat (FastRangeGeneric_u64_portable hash rng) = unat rng * unat hash div 2 ^ 64"
proof -
  define rl rh hl hh where d: "rl = rng AND 0xffffFFFF" "rh = drop_bit 32 rng"
    "hl = hash AND 0xffffFFFF" "hh = drop_bit 32 hash"
  note lt = half_less [of rng, folded d] half_less [of hash, folded d]
  have p: "unat (rl * hl) = unat rl * unat hl" "unat (rl * hh) = unat rl * unat hh"
    "unat (rh * hl) = unat rh * unat hl" "unat (rh * hh) = unat rh * unat hh"
    by (rule unat_times_small, use half_prod lt in fastforce)+
  let ?t1 = "drop_bit 32 (rl * hl) + rl * hh"
  have q: "unat (drop_bit 32 (rl * hl)) = unat rl * unat hl div 2 ^ 32"
    by (simp only: unat_drop p)
  have "unat rl * unat hl div 2 ^ 32 < 2 ^ 32"
    using half_prod [of "unat rl" "unat hl"] lt by (simp add: less_mult_imp_div_less)
  then have t1: "unat ?t1 = unat rl * unat hl div 2 ^ 32 + unat rl * unat hh"
    using half_prod [of "unat rl" "unat hh"] lt by (subst unat_plus_small) (simp_all add: p q)
  let ?t2 = "?t1 + ucast (ucast (rh * hl) :: u32)"
  have t2: "unat ?t2 = unat rl * unat hl div 2 ^ 32 + unat rl * unat hh + unat rh * unat hl mod 2 ^ 32"
    using half_prod [of "unat rl" "unat hh"] lt \<open>unat rl * unat hl div 2 ^ 32 < 2 ^ 32\<close>
    by (subst unat_plus_small) (simp_all add: t1 unat_low_u32 p)
  have total: "unat rng * unat hash div 2 ^ 64 =
    unat ?t2 div 2 ^ 32 + unat rh * unat hl div 2 ^ 32 + unat rh * unat hh"
    unfolding t2 halves_eq [of rng, folded d] halves_eq [of hash, folded d]
    using halves_div [of "2 ^ 32" "unat rh" "unat rl" "unat hh" "unat hl"] by simp
  have bound: "unat rng * unat hash div 2 ^ 64 < 2 ^ 64"
    using unat_FastRange64 [of hash rng] unsigned_less [of "FastRange64 hash rng", where 'a = nat] by simp
  let ?t3 = "drop_bit 32 ?t2 + drop_bit 32 (rh * hl)"
  have t3: "unat ?t3 = unat ?t2 div 2 ^ 32 + unat rh * unat hl div 2 ^ 32"
    using total bound by (subst unat_plus_small) (simp_all only: unat_drop p)
  have "unat (?t3 + rh * hh) = unat rng * unat hash div 2 ^ 64"
    using total bound by (subst unat_plus_small) (simp_all only: t3 p)
  then show ?thesis
    by (simp only: FastRangeGeneric_u64_portable_def Let_def d [symmetric])
qed

lemma FastRange64_bound: "0 < rng \<Longrightarrow> FastRange64 hash rng < rng"
proof -
  assume "0 < rng"
  then have "0 < unat rng" by (simp add: word_less_nat_alt)
  moreover have "unat hash < 2 ^ 64" using unsigned_less [of hash] by simp
  ultimately have "unat rng * unat hash div 2 ^ 64 < unat rng"
    by (rule div_scaled_less [rotated])
  then show ?thesis by (simp add: word_less_nat_alt unat_FastRange64)
qed

section \<open>Properties\<close>

text \<open>
  C28: the portable decomposition into 32-bit halves computes the same value as the 128-bit
  multiplication: none of its intermediate sums wraps around.
\<close>

theorem FastRangeGeneric_u64_portable_eq:
  "FastRangeGeneric_u64_portable hash rng = FastRangeGeneric_u64 hash rng"
proof -
  have "unat rng * unat hash div 2 ^ 64 = unat (FastRangeGeneric_u64 hash rng)"
    by (simp add: unat_FastRange64 flip: FastRange64_def)
  then show ?thesis by (simp add: word_unat_eq_iff portable_unat)
qed

end
