(* ===== verification/HashMap.thy ===== *)
theory HashMap
  imports Prelude
begin

text \<open>
  \<^verbatim>\<open>util/hash_map.h\<close>: a fixed array of 128 hash chains, each a vector of key-value pairs. The lock
  manager keeps its waits-for graph in two of them. \<open>Insert\<close> appends without looking for an older
  entry, \<open>Delete\<close> copies the last entry of the chain over the removed one, and \<open>Get\<close> returns a
  reference: reading it is \<open>HashMap_Get\<close>, assigning to it is \<open>HashMap_Set\<close>. \<open>Get\<close> of an absent key
  dereferences the end of the chain in C++; the model returns \<^const>\<open>None\<close> there.

  The locale \<open>id_map\<close> is the contract the lock manager relies on: the table behaves like a finite
  map. The counting steps of the deadlock detector are proved once in it.
\<close>

section \<open>Operations\<close>

type_synonym 'v HashMap = "(u64 \<times> 'v) list list"

definition HashMap_new :: "'v HashMap" where
  "HashMap_new = replicate 128 []"

definition hm_slot :: "u64 \<Rightarrow> nat" where
  "hm_slot key = unat (key mod 128)"

definition HashMap_Contains :: "'v HashMap \<Rightarrow> u64 \<Rightarrow> bool" where
  "HashMap_Contains table key =
     (let bucket = table ! hm_slot key
      in find_index (\<lambda>p. fst p = key) bucket \<noteq> None)"

definition HashMap_Insert :: "'v HashMap \<Rightarrow> u64 \<Rightarrow> 'v \<Rightarrow> 'v HashMap" where
  "HashMap_Insert table key v =
     (let bucket = table ! hm_slot key
      in table[hm_slot key := bucket @ [(key, v)]])"

definition HashMap_Delete :: "'v HashMap \<Rightarrow> u64 \<Rightarrow> 'v HashMap" where
  "HashMap_Delete table key =
     (let bucket = table ! hm_slot key
      in case find_index (\<lambda>p. fst p = key) bucket of
           None \<Rightarrow> table
         | Some i \<Rightarrow> table[hm_slot key := swap_remove_at i bucket])"

definition HashMap_Get :: "'v HashMap \<Rightarrow> u64 \<Rightarrow> 'v option" where
  "HashMap_Get table key =
     (let bucket = table ! hm_slot key
      in map_option (\<lambda>i. snd (bucket ! i)) (find_index (\<lambda>p. fst p = key) bucket))"

definition HashMap_Set :: "'v HashMap \<Rightarrow> u64 \<Rightarrow> 'v \<Rightarrow> 'v HashMap" where
  "HashMap_Set table key v =
     (let bucket = table ! hm_slot key
      in case find_index (\<lambda>p. fst p = key) bucket of
           None \<Rightarrow> table
         | Some i \<Rightarrow> table[hm_slot key := bucket[i := (key, v)]])"

definition hm_inv :: "'v HashMap \<Rightarrow> bool" where
  "hm_inv table \<longleftrightarrow> length table = 128 \<and>
     (\<forall>i<128. alist_ok (table ! i) \<and> (\<forall>p\<in>set (table ! i). hm_slot (fst p) = i))"

section \<open>The contract\<close>

locale id_map =
  fixes contains :: "'m \<Rightarrow> 'k \<Rightarrow> bool"
    and ins :: "'m \<Rightarrow> 'k \<Rightarrow> 'v \<Rightarrow> 'm"
    and del :: "'m \<Rightarrow> 'k \<Rightarrow> 'm"
    and get :: "'m \<Rightarrow> 'k \<Rightarrow> 'v option"
    and assign :: "'m \<Rightarrow> 'k \<Rightarrow> 'v \<Rightarrow> 'm"
    and new :: 'm
    and inv :: "'m \<Rightarrow> bool"
  assumes contains_get: "inv m \<Longrightarrow> contains m k \<longleftrightarrow> get m k \<noteq> None"
    and get_new: "get new k = None"
    and get_ins: "inv m \<Longrightarrow> get m k = None \<Longrightarrow> get (ins m k v) = (get m)(k := Some v)"
    and get_del: "inv m \<Longrightarrow> get (del m k) = (get m)(k := None)"
    and get_assign: "inv m \<Longrightarrow> get m k \<noteq> None \<Longrightarrow> get (assign m k v) = (get m)(k := Some v)"
    and inv_new: "inv new"
    and inv_ins: "inv m \<Longrightarrow> get m k = None \<Longrightarrow> inv (ins m k v)"
    and inv_del: "inv m \<Longrightarrow> inv (del m k)"
    and inv_assign: "inv m \<Longrightarrow> inv (assign m k v)"
begin

lemma put_get: "inv m \<Longrightarrow> get (if contains m k then assign m k v else ins m k v) = (get m)(k := Some v)"
  by (auto simp: contains_get get_ins get_assign)

lemma put_inv: "inv m \<Longrightarrow> inv (if contains m k then assign m k v else ins m k v)"
  by (auto simp: contains_get inv_ins inv_assign)

end

section \<open>The table meets the contract\<close>

lemma hm_slot_less [simp]: "hm_slot k < 128"
proof -
  have "k mod 128 < (128 :: u64)" by (simp add: word_mod_less_divisor)
  then show ?thesis by (simp add: hm_slot_def word_less_nat_alt)
qed

lemma HashMap_Get_map_of: "HashMap_Get t k = map_of (t ! hm_slot k) k"
  by (simp add: HashMap_Get_def find_index_map_of)

lemma HashMap_Contains_iff: "HashMap_Contains t k \<longleftrightarrow> HashMap_Get t k \<noteq> None"
  by (simp add: HashMap_Contains_def HashMap_Get_def Let_def)

lemma HashMap_Get_other_bucket:
  assumes "hm_inv t" "\<And>x. x \<noteq> k \<Longrightarrow> map_of b x = map_of (t ! hm_slot k) x"
  shows "HashMap_Get (t[hm_slot k := b]) = (HashMap_Get t)(k := map_of b k)"
proof
  fix x
  show "HashMap_Get (t[hm_slot k := b]) x = ((HashMap_Get t)(k := map_of b k)) x"
    using assms by (cases "hm_slot x = hm_slot k") (auto simp: HashMap_Get_map_of hm_inv_def)
qed

lemma hm_inv_upd:
  assumes "hm_inv t" "alist_ok b" "\<And>p. p \<in> set b \<Longrightarrow> hm_slot (fst p) = hm_slot k"
  shows "hm_inv (t[hm_slot k := b])"
  using assms by (auto simp: hm_inv_def nth_list_update)

lemma hm_bucket:
  assumes "hm_inv t"
  shows "alist_ok (t ! hm_slot k)" "p \<in> set (t ! hm_slot k) \<Longrightarrow> hm_slot (fst p) = hm_slot k"
  using assms by (auto simp: hm_inv_def)

interpretation hm: id_map HashMap_Contains HashMap_Insert HashMap_Delete HashMap_Get HashMap_Set
  HashMap_new hm_inv
proof
  fix m :: "'v HashMap" and k v
  show "HashMap_Contains m k \<longleftrightarrow> HashMap_Get m k \<noteq> None"
    by (rule HashMap_Contains_iff)
  show "HashMap_Get (HashMap_new :: 'v HashMap) k = None"
    by (simp add: HashMap_Get_map_of HashMap_new_def)
  show "hm_inv (HashMap_new :: 'v HashMap)"
    by (simp add: hm_inv_def HashMap_new_def)
  assume inv: "hm_inv m"
  note b = hm_bucket [OF inv]
  let ?b = "m ! hm_slot k"
  show "HashMap_Get (HashMap_Delete m k) = (HashMap_Get m)(k := None)"
  proof (cases "find_index (\<lambda>p. fst p = k) ?b")
    case None
    then have "HashMap_Get m k = None" by (simp add: HashMap_Get_def Let_def)
    with None show ?thesis by (auto simp: HashMap_Delete_def)
  next
    case (Some i)
    note sw = swap_remove_alist [OF b(1) Some]
    with Some show ?thesis
      by (simp add: HashMap_Delete_def HashMap_Get_other_bucket [OF inv])
  qed
  show "hm_inv (HashMap_Delete m k)"
    using inv b swap_remove_alist [OF b(1)]
    by (auto simp: HashMap_Delete_def Let_def split: option.splits intro!: hm_inv_upd)
  show "hm_inv (HashMap_Set m k v)"
    using inv b find_index_update [of k ?b _ v]
    by (auto simp: HashMap_Set_def Let_def alist_update_set split: option.splits intro!: hm_inv_upd)
  show "HashMap_Get (HashMap_Set m k v) = (HashMap_Get m)(k := Some v)" if "HashMap_Get m k \<noteq> None"
  proof -
    from that obtain i where i: "find_index (\<lambda>p. fst p = k) ?b = Some i"
      by (auto simp: HashMap_Get_def Let_def)
    then have "HashMap_Set m k v = m[hm_slot k := AList.update k v ?b]"
      by (simp add: HashMap_Set_def find_index_update)
    then show ?thesis by (simp add: HashMap_Get_other_bucket [OF inv])
  qed
  assume new: "HashMap_Get m k = None"
  then have fresh: "k \<notin> fst ` set ?b"
    by (simp add: HashMap_Get_map_of map_of_eq_None_iff)
  show "HashMap_Get (HashMap_Insert m k v) = (HashMap_Get m)(k := Some v)"
  proof -
    have "map_of (?b @ [(k, v)]) = (map_of ?b)(k \<mapsto> v)"
      using fresh by (auto simp: fun_eq_iff map_add_def split: option.split
          dest!: alist_fst_in)
    then show ?thesis
      by (simp add: HashMap_Insert_def HashMap_Get_other_bucket [OF inv] del: map_of_append)
  qed
  show "hm_inv (HashMap_Insert m k v)"
    using inv b fresh by (auto simp: HashMap_Insert_def Let_def intro!: hm_inv_upd)
qed

lemma finite_dom_HashMap_Get: "finite (dom (HashMap_Get t))"
proof (rule finite_subset)
  show "dom (HashMap_Get t) \<subseteq> (\<Union>i<128. fst ` set (t ! i))"
    by (force simp: HashMap_Get_map_of dest: map_of_SomeD)
qed simp

end
