(* ===== verification/Deadlock_Buffer.thy ===== *)
theory Deadlock_Buffer
  imports Prelude
begin

text \<open>
  \<^verbatim>\<open>DeadlockInfoBufferTempl\<close> of \<^verbatim>\<open>lock/point/point_lock_manager.h\<close>, with the path type
  \<^verbatim>\<open>DeadlockPath\<close> of \<^verbatim>\<open>include/rocksdb/utilities/transaction_db.h\<close>: a ring buffer of the latest
  deadlocks. Indexing the vector out of range is undefined behaviour in C++; in the model it is the
  result \<^const>\<open>None\<close>. The index is a \<^verbatim>\<open>uint32_t\<close>: its wrap-around is written out.
\<close>

section \<open>Data\<close>

record DeadlockInfo =
  m_txn_id :: TransactionID
  di_cf_id :: u32
  di_exclusive :: bool
  di_waiting_key :: string

record DeadlockPath =
  dl_path :: "DeadlockInfo list"
  limit_exceeded :: bool
  deadlock_time :: int

definition DeadlockPath_new :: "DeadlockInfo list \<Rightarrow> int \<Rightarrow> DeadlockPath" where
  "DeadlockPath_new path_entry dl_time =
     \<lparr>dl_path = path_entry, limit_exceeded = False, deadlock_time = dl_time\<rparr>"

definition DeadlockPath_limit :: "int \<Rightarrow> bool \<Rightarrow> DeadlockPath" where
  "DeadlockPath_limit dl_time limit = \<lparr>dl_path = [], limit_exceeded = limit, deadlock_time = dl_time\<rparr>"

definition DeadlockPath_empty :: "DeadlockPath \<Rightarrow> bool" where
  "DeadlockPath_empty p \<longleftrightarrow> dl_path p = [] \<and> \<not> limit_exceeded p"

abbreviation no_path :: DeadlockPath where
  "no_path \<equiv> DeadlockPath_limit 0 False"

record DeadlockInfoBuffer =
  paths_buffer :: "DeadlockPath list"
  buffer_idx :: nat

section \<open>Operations\<close>

definition DeadlockInfoBuffer_new :: "u32 \<Rightarrow> DeadlockInfoBuffer" where
  "DeadlockInfoBuffer_new n_latest_dlocks =
     \<lparr>paths_buffer = replicate (unat n_latest_dlocks) no_path, buffer_idx = 0\<rparr>"

definition Normalize :: "DeadlockInfoBuffer \<Rightarrow> DeadlockPath list option" where
  "Normalize b =
     (let working = paths_buffer b
      in if working = [] then Some working
         else if buffer_idx b \<ge> length (paths_buffer b) then None
         else if DeadlockPath_empty (paths_buffer b ! buffer_idx b)
              then Some (take (buffer_idx b) working)
         else Some (drop (buffer_idx b) working @ take (buffer_idx b) working))"

definition AddNewPath :: "DeadlockInfoBuffer \<Rightarrow> DeadlockPath \<Rightarrow> DeadlockInfoBuffer option" where
  "AddNewPath b path =
     (if paths_buffer b = [] then Some b
      else if buffer_idx b \<ge> length (paths_buffer b) then None
      else Some (b\<lparr>paths_buffer := (paths_buffer b)[buffer_idx b := path],
                   buffer_idx := (buffer_idx b + 1) mod 2 ^ 32 mod length (paths_buffer b)\<rparr>))"

definition Resize :: "DeadlockInfoBuffer \<Rightarrow> u32 \<Rightarrow> DeadlockInfoBuffer option" where
  "Resize b target =
     (case Normalize b of
        None \<Rightarrow> None
      | Some working \<Rightarrow>
          let n = unat target
          in if n < length working
             then Some (b\<lparr>paths_buffer := drop (length working - n) working, buffer_idx := 0\<rparr>)
             else let prev_size = length working
                  in Some (b\<lparr>paths_buffer := working @ replicate (n - prev_size) no_path,
                             buffer_idx := prev_size mod 2 ^ 32\<rparr>))"

definition PrepareBuffer :: "DeadlockInfoBuffer \<Rightarrow> DeadlockPath list option" where
  "PrepareBuffer b = map_option rev (Normalize b)"

section \<open>Invariant\<close>

text \<open>
  \<open>dib_holds b n xs\<close>: the buffer has room for \<open>n\<close> paths and holds \<open>xs\<close>, oldest first. The ring is
  either not yet full, with the free slots behind the index, or full and rotated by the index.
\<close>

definition dib_holds :: "DeadlockInfoBuffer \<Rightarrow> nat \<Rightarrow> DeadlockPath list \<Rightarrow> bool" where
  "dib_holds b n xs \<longleftrightarrow> n < 2 ^ 32 \<and> length (paths_buffer b) = n \<and> list_all (\<lambda>p. \<not> DeadlockPath_empty p) xs \<and>
     (n > 0 \<longrightarrow> buffer_idx b < n) \<and>
     (length xs < n \<and> buffer_idx b = length xs \<and> paths_buffer b = xs @ replicate (n - length xs) no_path
      \<or> length xs = n \<and> xs = drop (buffer_idx b) (paths_buffer b) @ take (buffer_idx b) (paths_buffer b))"

lemma empty_no_path [simp]: "DeadlockPath_empty no_path"
  by (simp add: DeadlockPath_empty_def DeadlockPath_limit_def)

lemma dib_holds_new: "dib_holds (DeadlockInfoBuffer_new n) (unat n) []"
  using unsigned_less [of n, where 'a = nat]
  by (auto simp: dib_holds_def DeadlockInfoBuffer_new_def)

lemma Normalize_holds:
  assumes "dib_holds b n xs"
  shows "Normalize b = Some xs"
proof (cases "n = 0")
  case True
  with assms show ?thesis by (auto simp: dib_holds_def Normalize_def)
next
  case False
  show ?thesis
  proof (cases "length xs < n")
    case True
    with assms have "buffer_idx b = length xs"
      "paths_buffer b = xs @ replicate (n - length xs) no_path"
      by (auto simp: dib_holds_def)
    with True show ?thesis by (auto simp: Normalize_def nth_append)
  next
    case full: False
    with assms have xs: "xs = drop (buffer_idx b) (paths_buffer b) @ take (buffer_idx b) (paths_buffer b)"
      and i: "buffer_idx b < length (paths_buffer b)" and ne: "list_all (\<lambda>p. \<not> DeadlockPath_empty p) xs"
      using False by (auto simp: dib_holds_def)
    have "paths_buffer b ! buffer_idx b \<in> set xs"
      using i by (subst xs) (simp add: Cons_nth_drop_Suc [symmetric])
    with ne have "\<not> DeadlockPath_empty (paths_buffer b ! buffer_idx b)"
      by (simp add: list_all_iff)
    with i xs show ?thesis by (auto simp: Normalize_def Let_def)
  qed
qed

lemma AddNewPath_holds:
  assumes h: "dib_holds b n xs" and n: "0 < n" and p: "\<not> DeadlockPath_empty p"
  shows "\<exists>b'. AddNewPath b p = Some b' \<and> dib_holds b' n (drop (Suc (length xs) - n) (xs @ [p]))"
proof -
  define i where "i = buffer_idx b"
  define buf where "buf = paths_buffer b"
  have i: "i < n" and len: "length buf = n" and n32: "n < 2 ^ 32"
    and ne: "list_all (\<lambda>p. \<not> DeadlockPath_empty p) xs"
    using h n by (auto simp: dib_holds_def i_def buf_def)
  have idx: "(i + 1) mod 2 ^ 32 mod n = (if Suc i = n then 0 else Suc i)"
    using i n32 by auto
  let ?b = "b\<lparr>paths_buffer := buf[i := p], buffer_idx := if Suc i = n then 0 else Suc i\<rparr>"
  have add: "AddNewPath b p = Some ?b"
    using i len n idx by (simp add: AddNewPath_def flip: i_def buf_def) auto
  have "dib_holds ?b n (drop (Suc (length xs) - n) (xs @ [p]))"
  proof (cases "length xs < n")
    case True
    with h have "i = length xs" "buf = xs @ replicate (n - length xs) no_path"
      by (auto simp: dib_holds_def i_def buf_def)
    moreover obtain k where "n - length xs = Suc k"
      using True by (metis Suc_diff_Suc)
    ultimately show ?thesis
      using True n32 ne p by (auto simp: dib_holds_def)
  next
    case False
    with h have full: "length xs = n" and xs: "xs = drop i buf @ take i buf"
      by (auto simp: dib_holds_def i_def buf_def)
    have "drop 1 (xs @ [p]) = drop (Suc i) buf @ take i buf @ [p]"
      using i len by (simp add: xs Cons_nth_drop_Suc [symmetric])
    moreover have "\<dots> = drop (if Suc i = n then 0 else Suc i) (buf[i := p])
        @ take (if Suc i = n then 0 else Suc i) (buf[i := p])"
      using i len by (auto simp: take_Suc_conv_app_nth drop_update_cancel take_update_cancel
          upd_conv_take_nth_drop)
    moreover have "list_all (\<lambda>p. \<not> DeadlockPath_empty p) (drop 1 (xs @ [p]))"
      using ne p by (auto simp: list_all_iff dest!: in_set_dropD)
    ultimately show ?thesis
      using full n n32 len i by (auto simp: dib_holds_def)
  qed
  with add show ?thesis by blast
qed

lemma rev_drop_latest: "rev (drop (length xs - n) xs) = take n (rev xs)"
  by (cases "n \<le> length xs") (simp_all add: rev_drop)

lemma Resize_holds:
  assumes h: "dib_holds b n xs" and t: "unat t \<noteq> length xs \<or> xs = []"
  shows "\<exists>b'. Resize b t = Some b' \<and> dib_holds b' (unat t) (drop (length xs - unat t) xs)"
proof -
  have lt: "unat t < 2 ^ 32" using unsigned_less [of t, where 'a = nat] by simp
  have ne: "list_all (\<lambda>p. \<not> DeadlockPath_empty p) xs" using h by (simp add: dib_holds_def)
  show ?thesis
  proof (cases "unat t < length xs")
    case True
    then show ?thesis
      using ne lt by (auto simp: Resize_def Normalize_holds [OF h] dib_holds_def list_all_iff
          dest!: in_set_dropD)
  next
    case False
    then show ?thesis
      using t ne lt by (auto simp: Resize_def Normalize_holds [OF h] dib_holds_def Let_def)
  qed
qed

fun add_paths :: "DeadlockInfoBuffer \<Rightarrow> DeadlockPath list \<Rightarrow> DeadlockInfoBuffer option" where
  "add_paths b [] = Some b"
| "add_paths b (p # ps) = (case AddNewPath b p of None \<Rightarrow> None | Some b' \<Rightarrow> add_paths b' ps)"

lemma drop_drop_append:
  "drop (Suc (length (drop (k - n) xs)) - n) (drop (k - n) xs @ [p]) = drop (Suc k - n) (xs @ [p])"
  if "length xs = k" "0 < n"
  using that by (cases "n \<le> k") (auto simp: Suc_diff_le)

lemma add_paths_holds:
  assumes "list_all (\<lambda>p. \<not> DeadlockPath_empty p) ps" "0 < n"
    "dib_holds b n (drop (length xs - n) xs)"
  shows "\<exists>b'. add_paths b ps = Some b' \<and>
    dib_holds b' n (drop (length (xs @ ps) - n) (xs @ ps))"
  using assms
proof (induction ps arbitrary: b xs)
  case (Cons p ps)
  then obtain b' where b': "AddNewPath b p = Some b'"
    and "dib_holds b' n (drop (Suc (length xs) - n) (xs @ [p]))"
    using AddNewPath_holds [OF Cons.prems(3), of p] drop_drop_append [of xs "length xs" n p]
    by auto
  then have "dib_holds b' n (drop (length (xs @ [p]) - n) (xs @ [p]))" by simp
  from Cons.IH [OF _ _ this] Cons.prems b' show ?case by simp
qed auto

section \<open>Properties\<close>

text \<open>
  C25: a buffer for \<open>n\<close> deadlocks that was given the paths \<open>ps\<close> reports the latest \<open>n\<close> of them,
  the most recent first, and never indexes out of range.
\<close>

theorem deadlock_buffer_latest:
  assumes "list_all (\<lambda>p. \<not> DeadlockPath_empty p) ps"
  shows "\<exists>b. add_paths (DeadlockInfoBuffer_new n) ps = Some b \<and>
    PrepareBuffer b = Some (take (unat n) (rev ps))"
proof (cases "0 < unat n")
  case True
  have "dib_holds (DeadlockInfoBuffer_new n) (unat n) (drop (length ([] :: DeadlockPath list) - unat n) [])"
    using dib_holds_new [of n] by simp
  from add_paths_holds [OF assms True this] show ?thesis
    by (auto simp: PrepareBuffer_def rev_drop_latest dest!: Normalize_holds)
next
  case False
  have "add_paths b ps = Some b" if "paths_buffer b = []" for b
    using that by (induction ps) (auto simp: AddNewPath_def)
  with False show ?thesis
    by (auto simp: DeadlockInfoBuffer_new_def PrepareBuffer_def Normalize_def)
qed

theorem deadlock_buffer_latest_witness:
  "\<exists>b. add_paths (DeadlockInfoBuffer_new 2) (map (\<lambda>t. DeadlockPath_limit t True) [1, 2, 3]) = Some b \<and>
    PrepareBuffer b = Some (map (\<lambda>t. DeadlockPath_limit t True) [3, 2])"
proof -
  have "list_all (\<lambda>p. \<not> DeadlockPath_empty p) (map (\<lambda>t. DeadlockPath_limit t True) [1, 2, 3])"
    by (simp add: DeadlockPath_empty_def DeadlockPath_limit_def)
  from deadlock_buffer_latest [OF this, of 2] show ?thesis
    by (simp del: add_paths.simps)
qed

text \<open>
  C26: resizing keeps the latest paths that fit and a usable buffer, unless the new size is exactly
  the number of paths held.
\<close>

theorem Resize_keeps_latest:
  assumes "dib_holds b n xs" "unat t \<noteq> length xs \<or> xs = []"
  shows "\<exists>b'. Resize b t = Some b' \<and> PrepareBuffer b' = Some (take (unat t) (rev xs)) \<and>
    dib_holds b' (unat t) (drop (length xs - unat t) xs)"
proof -
  obtain b' where "Resize b t = Some b'"
    and h: "dib_holds b' (unat t) (drop (length xs - unat t) xs)"
    using Resize_holds [OF assms] by blast
  with Normalize_holds [OF h] show ?thesis
    by (simp add: PrepareBuffer_def rev_drop_latest)
qed

theorem Resize_keeps_latest_witness:
  "\<exists>b'. Resize (DeadlockInfoBuffer_new 2) 3 = Some b' \<and> PrepareBuffer b' = Some []"
  using Resize_keeps_latest [OF dib_holds_new [of 2], of 3] by auto

text \<open>
  C27: resizing to exactly the number of paths held leaves the index one past the end: the next
  recorded deadlock and the next report both index the vector out of range.
\<close>

theorem Resize_exact_out_of_range:
  assumes "dib_holds b n xs" "unat t = length xs" "xs \<noteq> []"
  shows "\<exists>b'. Resize b t = Some b' \<and> AddNewPath b' p = None \<and> PrepareBuffer b' = None"
proof -
  have "length xs < 2 ^ 32"
    using unsigned_less [of t, where 'a = nat] assms(2) by simp
  then show ?thesis
    using assms
    by (simp add: Resize_def Normalize_holds [OF assms(1)] Let_def)
      (simp add: AddNewPath_def PrepareBuffer_def Normalize_def)
qed

theorem Resize_exact_out_of_range_witness:
  "\<exists>b b'. AddNewPath (DeadlockInfoBuffer_new 1) (DeadlockPath_limit 7 True) = Some b \<and>
    Resize b 1 = Some b' \<and> AddNewPath b' (DeadlockPath_limit 8 True) = None"
proof -
  let ?p = "DeadlockPath_limit 7 True"
  let ?b = "\<lparr>paths_buffer = [?p], buffer_idx = 0\<rparr>"
  have add: "AddNewPath (DeadlockInfoBuffer_new 1) ?p = Some ?b"
    by (simp add: AddNewPath_def DeadlockInfoBuffer_new_def)
  have "dib_holds ?b 1 [?p]"
    by (simp add: dib_holds_def DeadlockPath_empty_def DeadlockPath_limit_def)
  from Resize_exact_out_of_range [OF this, of 1 "DeadlockPath_limit 8 True"] add
  show ?thesis by auto
qed

end
