(* ===== verification/Deadlock_Detect.thy ===== *)
theory Deadlock_Detect
  imports HashMap Deadlock_Buffer
begin

text \<open>
  The deadlock detector of \<^verbatim>\<open>lock/point/point_lock_manager.cc\<close>: \<^verbatim>\<open>IncrementWaiters\<close>,
  \<^verbatim>\<open>DecrementWaiters\<close> and \<^verbatim>\<open>DecrementWaitersImpl\<close> over the two hash maps \<^verbatim>\<open>wait_txn_map_\<close> (waiter to the
  transactions it waits for) and \<^verbatim>\<open>rev_wait_txn_map_\<close> (transaction to its number of waiters). Every
  operation runs under \<^verbatim>\<open>wait_txn_map_mutex_\<close> and is one step of the model.

  The two vectors \<^verbatim>\<open>queue_values\<close> and \<^verbatim>\<open>queue_parents\<close> of the search are written only behind \<^verbatim>\<open>tail\<close>
  and read only before it: the model keeps their first \<^verbatim>\<open>tail\<close> entries as one list of pairs, and the
  parent -1 of the roots is \<^const>\<open>None\<close>. \<^verbatim>\<open>Get\<close> of an absent key and an index out of range are undefined
  in C++ and \<^const>\<open>None\<close> in the model; a negative search depth makes the vector constructor throw, also
  \<^const>\<open>None\<close>. What \<^verbatim>\<open>env->GetCurrentTime\<close> gives is the argument \<open>cur_time\<close>, \<^const>\<open>None\<close> if it fails.
\<close>

section \<open>Data\<close>

record TrackedTrxInfo =
  m_neighbors :: "TransactionID list"
  m_cf_id :: u32
  m_exclusive :: bool
  m_waiting_key :: string

record WaitMaps =
  rev_wait_txn_map :: "int HashMap"
  wait_txn_map :: "TrackedTrxInfo HashMap"
  dlock_buffer :: DeadlockInfoBuffer

definition WaitMaps_new :: "u32 \<Rightarrow> WaitMaps" where
  "WaitMaps_new max_num_deadlocks =
     \<lparr>rev_wait_txn_map = HashMap_new, wait_txn_map = HashMap_new,
      dlock_buffer = DeadlockInfoBuffer_new max_num_deadlocks\<rparr>"

section \<open>Operations\<close>

fun decrement_rev :: "int HashMap \<Rightarrow> TransactionID list \<Rightarrow> int HashMap option" where
  "decrement_rev rev_map [] = Some rev_map"
| "decrement_rev rev_map (wait_id # wait_ids) =
     (case HashMap_Get rev_map wait_id of
        None \<Rightarrow> None
      | Some n \<Rightarrow>
          let rev_map = HashMap_Set rev_map wait_id (n - 1)
          in decrement_rev (if n - 1 = 0 then HashMap_Delete rev_map wait_id else rev_map) wait_ids)"

definition DecrementWaitersImpl :: "WaitMaps \<Rightarrow> TransactionID \<Rightarrow> TransactionID list \<Rightarrow> WaitMaps option" where
  "DecrementWaitersImpl ws txn_id wait_ids =
     (let ws = ws\<lparr>wait_txn_map := HashMap_Delete (wait_txn_map ws) txn_id\<rparr>
      in map_option (\<lambda>r. ws\<lparr>rev_wait_txn_map := r\<rparr>) (decrement_rev (rev_wait_txn_map ws) wait_ids))"

definition DecrementWaiters :: "WaitMaps \<Rightarrow> TransactionID \<Rightarrow> TransactionID list \<Rightarrow> WaitMaps option" where
  "DecrementWaiters ws txn_id wait_ids = DecrementWaitersImpl ws txn_id wait_ids"

definition increment_one :: "int HashMap \<Rightarrow> TransactionID \<Rightarrow> int HashMap" where
  "increment_one rev_map wait_id =
     (case HashMap_Get rev_map wait_id of
        Some n \<Rightarrow> HashMap_Set rev_map wait_id (n + 1)
      | None \<Rightarrow> HashMap_Insert rev_map wait_id 1)"

definition increment_rev :: "int HashMap \<Rightarrow> TransactionID list \<Rightarrow> int HashMap" where
  "increment_rev rev_map wait_ids = foldl increment_one rev_map wait_ids"

type_synonym wait_queue = "(TransactionID \<times> nat option) list"

datatype detect_result =
    No_deadlock
  | Found_cycle wait_queue nat
  | Depth_exceeded

function detect_loop ::
  "TrackedTrxInfo HashMap \<Rightarrow> TransactionID \<Rightarrow> nat \<Rightarrow> nat \<Rightarrow> nat option \<Rightarrow> TransactionID list option \<Rightarrow>
   wait_queue \<Rightarrow> detect_result" where
  "detect_loop wait_map txn_id depth head parent next_ids queue =
     (if \<not> head < depth then Depth_exceeded
      else
        let queue = queue @ (case next_ids of
                               None \<Rightarrow> []
                             | Some ids \<Rightarrow> map (\<lambda>v. (v, parent)) (take (depth - length queue) ids))
        in if length queue = head then No_deadlock
           else let nxt = fst (queue ! head)
                in if nxt = txn_id then Found_cycle queue head
                   else case HashMap_Get wait_map nxt of
                          None \<Rightarrow> detect_loop wait_map txn_id depth (head + 1) parent None queue
                        | Some info \<Rightarrow>
                            detect_loop wait_map txn_id depth (head + 1) (Some head)
                              (Some (m_neighbors info)) queue)"
  by pat_completeness auto

termination
  by (relation "measure (\<lambda>(wait_map, txn_id, depth, head, _). depth - head)") auto

partial_function (option) extract_path ::
  "TrackedTrxInfo HashMap \<Rightarrow> wait_queue \<Rightarrow> nat option \<Rightarrow> DeadlockInfo list option" where
  "extract_path wait_map queue head =
     (case head of
        None \<Rightarrow> Some []
      | Some h \<Rightarrow>
          if h \<ge> length queue then None
          else case HashMap_Get wait_map (fst (queue ! h)) of
                 None \<Rightarrow> None
               | Some info \<Rightarrow>
                   Option.bind (extract_path wait_map queue (snd (queue ! h)))
                     (\<lambda>path. Some (\<lparr>m_txn_id = fst (queue ! h), di_cf_id = m_cf_id info,
                                    di_exclusive = m_exclusive info,
                                    di_waiting_key = m_waiting_key info\<rparr> # path)))"

definition IncrementWaiters ::
  "WaitMaps \<Rightarrow> TransactionID \<Rightarrow> int \<Rightarrow> TransactionID list \<Rightarrow> string \<Rightarrow> u32 \<Rightarrow> bool \<Rightarrow> int option \<Rightarrow>
   (bool \<times> WaitMaps) option" where
  "IncrementWaiters ws txn_id depth wait_ids key cf_id excl cur_time =
     (if depth < 0 then None
      else
        let ws = ws\<lparr>wait_txn_map := HashMap_Insert (wait_txn_map ws) txn_id
                     \<lparr>m_neighbors = wait_ids, m_cf_id = cf_id, m_exclusive = excl, m_waiting_key = key\<rparr>\<rparr>;
            ws = ws\<lparr>rev_wait_txn_map := increment_rev (rev_wait_txn_map ws) wait_ids\<rparr>;
            deadlock_time = (case cur_time of None \<Rightarrow> 0 | Some t \<Rightarrow> t)
        in if \<not> HashMap_Contains (rev_wait_txn_map ws) txn_id then Some (False, ws)
           else case detect_loop (wait_txn_map ws) txn_id (nat depth) 0 None (Some wait_ids) [] of
                  No_deadlock \<Rightarrow> Some (False, ws)
                | Found_cycle queue head \<Rightarrow>
                    Option.bind (extract_path (wait_txn_map ws) queue (Some head)) (\<lambda>path.
                    Option.bind (AddNewPath (dlock_buffer ws) (DeadlockPath_new (rev path) deadlock_time)) (\<lambda>b.
                    map_option (Pair True) (DecrementWaitersImpl (ws\<lparr>dlock_buffer := b\<rparr>) txn_id wait_ids)))
                | Depth_exceeded \<Rightarrow>
                    Option.bind (AddNewPath (dlock_buffer ws) (DeadlockPath_limit deadlock_time True)) (\<lambda>b.
                    map_option (Pair True) (DecrementWaitersImpl (ws\<lparr>dlock_buffer := b\<rparr>) txn_id wait_ids)))"

declare detect_loop.simps [simp del]

section \<open>The waits-for graph and its invariant\<close>

definition waits_for :: "TrackedTrxInfo HashMap \<Rightarrow> (TransactionID \<times> TransactionID) set" where
  "waits_for m = {(a, b). \<exists>info. HashMap_Get m a = Some info \<and> b \<in> set (m_neighbors info)}"

definition nwait :: "(TransactionID \<Rightarrow> TrackedTrxInfo option) \<Rightarrow> TransactionID \<Rightarrow> nat" where
  "nwait W w = (\<Sum>a\<in>dom W. count_list (m_neighbors (the (W a))) w)"

definition counts_as :: "int HashMap \<Rightarrow> (TransactionID \<Rightarrow> nat) \<Rightarrow> bool" where
  "counts_as m N \<longleftrightarrow> hm_inv m \<and> (\<forall>w. HashMap_Get m w = (if N w = 0 then None else Some (int (N w))))"

text \<open>
  The invariant: the reverse map counts, for every transaction, the entries of the waits-for map that
  name it, and has no entry where the count is zero.
\<close>

definition wait_inv :: "WaitMaps \<Rightarrow> bool" where
  "wait_inv ws \<longleftrightarrow> hm_inv (wait_txn_map ws) \<and>
     counts_as (rev_wait_txn_map ws) (nwait (HashMap_Get (wait_txn_map ws))) \<and>
     (\<exists>n xs. dib_holds (dlock_buffer ws) n xs)"

lemma nwait_insert:
  assumes "finite (dom W)" "W x = None"
  shows "nwait (W(x \<mapsto> i)) w = nwait W w + count_list (m_neighbors i) w"
proof -
  have x: "x \<notin> dom W" using assms(2) by (simp add: domIff)
  have "(\<Sum>a\<in>dom W. count_list (m_neighbors (the ((W(x \<mapsto> i)) a))) w) = nwait W w"
    unfolding nwait_def by (rule sum.cong) (use x in auto)
  then show ?thesis using assms(1) x by (simp add: nwait_def)
qed

lemma nwait_delete:
  assumes "finite (dom W)" "W x = Some i"
  shows "nwait W w = nwait (W(x := None)) w + count_list (m_neighbors i) w"
proof -
  have "(W(x := None))(x \<mapsto> i) = W" using assms(2) by auto
  then show ?thesis using nwait_insert [of "W(x := None)" x i w] assms(1) by simp
qed

lemma nwait_0_iff:
  assumes "finite (dom W)"
  shows "nwait W w = 0 \<longleftrightarrow> (\<forall>a info. W a = Some info \<longrightarrow> w \<notin> set (m_neighbors info))"
  using assms by (auto simp: nwait_def count_list_0_iff dom_def)

subsection \<open>Counting\<close>

lemma counts_as_increment_one:
  assumes "counts_as m N"
  shows "counts_as (increment_one m w) (N(w := N w + 1))"
proof -
  have inv: "hm_inv m" and get: "\<And>w. HashMap_Get m w = (if N w = 0 then None else Some (int (N w)))"
    using assms by (simp_all add: counts_as_def)
  show ?thesis
  proof (cases "N w = 0")
    case True
    then have "HashMap_Get m w = None" by (simp add: get)
    then show ?thesis
      using inv True by (simp add: counts_as_def increment_one_def hm.inv_ins hm.get_ins get)
  next
    case False
    then have "HashMap_Get m w = Some (int (N w))" by (simp add: get)
    then show ?thesis
      using inv False
      by (simp add: counts_as_def increment_one_def hm.inv_assign hm.get_assign get)
  qed
qed

lemma counts_as_increment_rev:
  "counts_as m N \<Longrightarrow> counts_as (increment_rev m ids) (\<lambda>w. N w + count_list ids w)"
proof (induction ids arbitrary: m N)
  case (Cons x ids)
  have "counts_as (increment_rev m (x # ids)) (\<lambda>w. (N(x := N x + 1)) w + count_list ids w)"
    using Cons.IH [OF counts_as_increment_one [OF Cons.prems]] by (simp add: increment_rev_def)
  moreover have "(\<lambda>w. (N(x := N x + 1)) w + count_list ids w) = (\<lambda>w. N w + count_list (x # ids) w)"
    by (auto simp: fun_eq_iff)
  ultimately show ?case by simp
qed (simp add: increment_rev_def)

lemma counts_as_decrement_one:
  assumes "counts_as m N" "N w = Suc k"
  shows "HashMap_Get m w = Some (int (Suc k))"
    and "counts_as (if int (Suc k) - 1 = 0 then HashMap_Delete (HashMap_Set m w (int (Suc k) - 1)) w
        else HashMap_Set m w (int (Suc k) - 1)) (N(w := k))"
proof -
  have inv: "hm_inv m" and get: "\<And>w. HashMap_Get m w = (if N w = 0 then None else Some (int (N w)))"
    using assms by (simp_all add: counts_as_def)
  show some: "HashMap_Get m w = Some (int (Suc k))" using assms(2) by (simp add: get)
  have set: "HashMap_Get (HashMap_Set m w v) = (HashMap_Get m)(w := Some v)" for v
    by (rule hm.get_assign [OF inv]) (simp add: some)
  show "counts_as (if int (Suc k) - 1 = 0 then HashMap_Delete (HashMap_Set m w (int (Suc k) - 1)) w
        else HashMap_Set m w (int (Suc k) - 1)) (N(w := k))"
    using inv by (cases k) (auto simp: counts_as_def hm.inv_del hm.inv_assign hm.get_del set get)
qed

lemma counts_as_decrement_rev:
  "counts_as m (\<lambda>w. N w + count_list ids w) \<Longrightarrow> \<exists>m'. decrement_rev m ids = Some m' \<and> counts_as m' N"
proof (induction ids arbitrary: m)
  case (Cons x ids)
  define M where "M = (\<lambda>w. N w + count_list (x # ids) w)"
  have "M x = Suc (N x + count_list ids x)" by (simp add: M_def)
  note step = counts_as_decrement_one [OF Cons.prems [folded M_def] this]
  have "M(x := N x + count_list ids x) = (\<lambda>w. N w + count_list ids w)"
    by (auto simp: M_def fun_eq_iff)
  note IH = Cons.IH [OF step(2) [unfolded this]]
  show ?case unfolding decrement_rev.simps step(1) option.case Let_def by (rule IH)
qed simp

subsection \<open>The search\<close>

lemma detect_none_closed:
  assumes "detect_loop m x depth head parent next_ids queue = No_deadlock"
    and "head \<le> length queue" "\<And>j. j < head \<Longrightarrow> fst (queue ! j) \<noteq> x"
    and "length queue < depth \<Longrightarrow>
      R \<union> (waits_for m `` (fst ` set (take head queue))) \<subseteq>
      fst ` set queue \<union> (case next_ids of None \<Rightarrow> {} | Some ids \<Rightarrow> set ids)"
  shows "\<exists>S. R \<subseteq> S \<and> waits_for m `` S \<subseteq> S \<and> x \<notin> S"
  using assms
proof (induction m x depth head parent next_ids queue rule: detect_loop.induct)
  case (1 m x depth head parent next_ids queue)
  define q where "q = queue @ (case next_ids of None \<Rightarrow> []
      | Some ids \<Rightarrow> map (\<lambda>v. (v, parent)) (take (depth - length queue) ids))"
  have depth: "head < depth" using "1.prems"(1) by (auto simp: detect_loop.simps split: if_splits)
  have old: "take head q = take head queue" "\<And>j. j < head \<Longrightarrow> q ! j = queue ! j"
    using "1.prems"(2) by (auto simp: q_def nth_append)
  have hq: "head \<le> length q" using "1.prems"(2) by (simp add: q_def)
  have cover: "R \<union> (waits_for m `` (fst ` set (take head q))) \<subseteq> fst ` set q" if "length q < depth"
  proof -
    have "length queue < depth" using that by (simp add: q_def)
    moreover have "(case next_ids of None \<Rightarrow> {} | Some ids \<Rightarrow> set ids) \<subseteq> fst ` set q"
      using that by (auto simp: q_def image_Un image_image split: option.splits)
    moreover have "fst ` set queue \<subseteq> fst ` set q" by (auto simp: q_def)
    ultimately show ?thesis using "1.prems"(4) unfolding old(1) by blast
  qed
  show ?case
  proof (cases "length q = head")
    case True
    then have "R \<union> (waits_for m `` (fst ` set q)) \<subseteq> fst ` set q" using cover depth by simp
    moreover have "x \<notin> fst ` set q"
      using "1.prems"(3) old(2) True by (metis (no_types, lifting) imageE in_set_conv_nth)
    ultimately show ?thesis by (intro exI [of _ "fst ` set q"]) simp
  next
    case False
    with hq have lt: "head < length q" by simp
    have eq: "detect_loop m x depth head parent next_ids queue =
      (if fst (q ! head) = x then Found_cycle q head
       else case HashMap_Get m (fst (q ! head)) of
          None \<Rightarrow> detect_loop m x depth (head + 1) parent None q
        | Some info \<Rightarrow> detect_loop m x depth (head + 1) (Some head) (Some (m_neighbors info)) q)"
      using depth False
      unfolding detect_loop.simps [of m x depth head parent next_ids queue] Let_def q_def [symmetric]
      by simp
    then have nx: "fst (q ! head) \<noteq> x" using "1.prems"(1) by auto
    have notx: "fst (q ! j) \<noteq> x" if "j < head + 1" for j
      using that "1.prems"(3) old(2) nx by (cases "j = head") auto
    have "take (head + 1) q = take head q @ [q ! head]" using lt by (simp add: take_Suc_conv_app_nth)
    then have tk: "waits_for m `` (fst ` set (take (head + 1) q)) =
        waits_for m `` (fst ` set (take head q)) \<union> waits_for m `` {fst (q ! head)}"
      by (simp only: set_append image_Un Image_Un) simp
    have "\<not> \<not> head < depth" using depth by simp
    note IH = "1.IH" [OF this q_def False refl nx]
    show ?thesis
    proof (cases "HashMap_Get m (fst (q ! head))")
      case None
      then have nb: "waits_for m `` {fst (q ! head)} = {}" by (auto simp: waits_for_def)
      show ?thesis
      proof (rule IH(1) [OF None])
        show "detect_loop m x depth (head + 1) parent None q = No_deadlock"
          using "1.prems"(1) unfolding eq None by (simp add: nx)
        show "R \<union> waits_for m `` (fst ` set (take (head + 1) q)) \<subseteq>
            fst ` set q \<union> (case None of None \<Rightarrow> {} | Some ids \<Rightarrow> set ids)" if "length q < depth"
          using cover [OF that] unfolding tk nb by simp
      qed (use lt notx in simp_all)
    next
      case (Some info)
      then have nb: "waits_for m `` {fst (q ! head)} = set (m_neighbors info)" by (auto simp: waits_for_def)
      show ?thesis
      proof (rule IH(2) [OF Some])
        show "detect_loop m x depth (head + 1) (Some head) (Some (m_neighbors info)) q = No_deadlock"
          using "1.prems"(1) unfolding eq Some by (simp add: nx)
        show "R \<union> waits_for m `` (fst ` set (take (head + 1) q)) \<subseteq>
            fst ` set q \<union> (case Some (m_neighbors info) of None \<Rightarrow> {} | Some ids \<Rightarrow> set ids)" if "length q < depth"
          using cover [OF that] unfolding tk nb option.case by blast
      qed (use lt notx in simp_all)
    qed
  qed
qed

text \<open>Every queue entry is one of the roots or a transaction its parent entry waits for.\<close>

definition entry_ok :: "TrackedTrxInfo HashMap \<Rightarrow> TransactionID set \<Rightarrow> wait_queue \<Rightarrow> TransactionID \<times> nat option \<Rightarrow> nat \<Rightarrow> bool" where
  "entry_ok m R q e n =
     (case snd e of
        None \<Rightarrow> fst e \<in> R
      | Some p \<Rightarrow> p < n \<and> p < length q \<and> (fst (q ! p), fst e) \<in> waits_for m)"

definition queue_ok :: "TrackedTrxInfo HashMap \<Rightarrow> TransactionID set \<Rightarrow> wait_queue \<Rightarrow> bool" where
  "queue_ok m R q \<longleftrightarrow> (\<forall>j<length q. entry_ok m R q (q ! j) j)"

lemma entry_ok_mono: "entry_ok m R q e n \<Longrightarrow> n \<le> n' \<Longrightarrow> entry_ok m R (q @ q') e n'"
  by (auto simp: entry_ok_def nth_append split: option.splits)

lemma queue_ok_append:
  assumes "queue_ok m R q" "\<And>e. e \<in> set q' \<Longrightarrow> entry_ok m R q e (length q)"
  shows "queue_ok m R (q @ q')"
  unfolding queue_ok_def
proof (intro allI impI)
  fix j assume j: "j < length (q @ q')"
  show "entry_ok m R (q @ q') ((q @ q') ! j) j"
  proof (cases "j < length q")
    case True
    with assms(1) have "entry_ok m R q (q ! j) j" by (simp add: queue_ok_def)
    then show ?thesis using True by (simp add: nth_append entry_ok_mono)
  next
    case False
    with j have "q' ! (j - length q) \<in> set q'" by simp
    from entry_ok_mono [OF assms(2) [OF this], of j q'] False show ?thesis by (simp add: nth_append)
  qed
qed

lemma detect_cycle_queue:
  assumes "detect_loop m x depth head parent next_ids queue = Found_cycle q h"
    and "queue_ok m R queue" "head \<le> length queue"
    and "\<And>ids v. next_ids = Some ids \<Longrightarrow> v \<in> set ids \<Longrightarrow> entry_ok m R queue (v, parent) (length queue)"
  shows "queue_ok m R q \<and> h < length q \<and> fst (q ! h) = x"
  using assms
proof (induction m x depth head parent next_ids queue rule: detect_loop.induct)
  case (1 m x depth head parent next_ids queue)
  define q0 where "q0 = queue @ (case next_ids of None \<Rightarrow> []
      | Some ids \<Rightarrow> map (\<lambda>v. (v, parent)) (take (depth - length queue) ids))"
  have depth: "head < depth" using "1.prems"(1) by (auto simp: detect_loop.simps split: if_splits)
  have q0: "queue_ok m R q0"
    unfolding q0_def
    by (rule queue_ok_append [OF "1.prems"(2)])
      (auto split: option.splits dest: in_set_takeD intro: "1.prems"(4))
  have hq: "head \<le> length q0" using "1.prems"(3) by (simp add: q0_def)
  have neq: "length q0 \<noteq> head"
  proof
    assume "length q0 = head"
    with "1.prems"(1) depth show False
      unfolding detect_loop.simps [of m x depth head parent next_ids queue] Let_def q0_def [symmetric]
      by simp
  qed
  have eq: "detect_loop m x depth head parent next_ids queue =
      (if fst (q0 ! head) = x then Found_cycle q0 head
       else case HashMap_Get m (fst (q0 ! head)) of
          None \<Rightarrow> detect_loop m x depth (head + 1) parent None q0
        | Some info \<Rightarrow> detect_loop m x depth (head + 1) (Some head) (Some (m_neighbors info)) q0)"
    using depth neq
    unfolding detect_loop.simps [of m x depth head parent next_ids queue] Let_def q0_def [symmetric]
    by simp
  show ?case
  proof (cases "fst (q0 ! head) = x")
    case True
    with eq "1.prems"(1) q0 hq neq show ?thesis by auto
  next
    case False
    have "\<not> \<not> head < depth" using depth by simp
    note IH = "1.IH" [OF this q0_def neq refl False]
    show ?thesis
    proof (cases "HashMap_Get m (fst (q0 ! head))")
      case None
      with IH(1) [OF None] "1.prems"(1) eq False q0 hq neq show ?thesis by simp
    next
      case (Some info)
      have "entry_ok m R q0 (v, Some head) (length q0)" if "v \<in> set (m_neighbors info)" for v
        using that Some hq neq by (auto simp: entry_ok_def waits_for_def)
      with IH(2) [OF Some] "1.prems"(1) eq False q0 hq neq Some show ?thesis by simp
    qed
  qed
qed

lemma extract_path_chain:
  assumes "queue_ok m R q" "h < length q" "HashMap_Get m (fst (q ! h)) \<noteq> None"
  shows "\<exists>path. extract_path m q (Some h) = Some path \<and> path \<noteq> [] \<and> m_txn_id (hd path) = fst (q ! h) \<and>
    m_txn_id (last path) \<in> R \<and>
    successively (\<lambda>a b. (m_txn_id b, m_txn_id a) \<in> waits_for m) path"
  using assms(2,3)
proof (induction h rule: less_induct)
  case (less h)
  obtain info where info: "HashMap_Get m (fst (q ! h)) = Some info" using less.prems(2) by auto
  have ok: "entry_ok m R q (q ! h) h" using assms(1) less.prems(1) by (simp add: queue_ok_def)
  show ?case
  proof (cases "snd (q ! h)")
    case None
    with ok have "fst (q ! h) \<in> R" by (simp add: entry_ok_def)
    moreover have "extract_path m q None = Some []" by (subst extract_path.simps) simp
    ultimately show ?thesis
      using less.prems(1) info None by (subst extract_path.simps) simp
  next
    case (Some p)
    with ok have p: "p < h" "p < length q" "(fst (q ! p), fst (q ! h)) \<in> waits_for m"
      by (simp_all add: entry_ok_def)
    then have "HashMap_Get m (fst (q ! p)) \<noteq> None" by (auto simp: waits_for_def)
    from less.IH [OF p(1,2) this] obtain path where path: "extract_path m q (Some p) = Some path"
      "path \<noteq> []" "m_txn_id (hd path) = fst (q ! p)" "m_txn_id (last path) \<in> R"
      "successively (\<lambda>a b. (m_txn_id b, m_txn_id a) \<in> waits_for m) path" by auto
    then show ?thesis
      using less.prems(1) info Some p(3)
      by (subst extract_path.simps) (auto simp: successively_Cons)
  qed
qed

section \<open>What the operations do\<close>

lemma AddNewPath_ok:
  assumes "\<exists>n xs. dib_holds b n xs" "\<not> DeadlockPath_empty p"
  shows "\<exists>b'. AddNewPath b p = Some b' \<and> (\<exists>n xs. dib_holds b' n xs)"
proof -
  obtain n xs where h: "dib_holds b n xs" using assms(1) by blast
  show ?thesis
  proof (cases "n = 0")
    case True
    with h have "AddNewPath b p = Some b" by (auto simp: dib_holds_def AddNewPath_def)
    with h show ?thesis by blast
  next
    case False
    then show ?thesis using AddNewPath_holds [OF h _ assms(2)] by blast
  qed
qed

definition maps_inv :: "WaitMaps \<Rightarrow> bool" where
  "maps_inv ws \<longleftrightarrow> hm_inv (wait_txn_map ws) \<and>
     counts_as (rev_wait_txn_map ws) (nwait (HashMap_Get (wait_txn_map ws)))"

lemma wait_inv_maps: "wait_inv ws \<longleftrightarrow> maps_inv ws \<and> (\<exists>n xs. dib_holds (dlock_buffer ws) n xs)"
  by (auto simp: wait_inv_def maps_inv_def)

lemma DecrementWaitersImpl_ok:
  assumes "maps_inv ws" "HashMap_Get (wait_txn_map ws) x = Some info" "m_neighbors info = wait_ids"
  shows "\<exists>ws'. DecrementWaitersImpl ws x wait_ids = Some ws' \<and> maps_inv ws' \<and>
    HashMap_Get (wait_txn_map ws') = (HashMap_Get (wait_txn_map ws))(x := None) \<and>
    dlock_buffer ws' = dlock_buffer ws"
proof -
  define W where "W = HashMap_Get (wait_txn_map ws)"
  have inv: "hm_inv (wait_txn_map ws)" and c: "counts_as (rev_wait_txn_map ws) (nwait W)"
    using assms(1) by (simp_all add: maps_inv_def W_def)
  have "nwait W = (\<lambda>w. nwait (W(x := None)) w + count_list wait_ids w)"
    using nwait_delete [of W x info] finite_dom_HashMap_Get assms(2,3) by (auto simp: W_def)
  with c obtain r where r: "decrement_rev (rev_wait_txn_map ws) wait_ids = Some r"
    "counts_as r (nwait (W(x := None)))"
    using counts_as_decrement_rev by metis
  have get: "HashMap_Get (HashMap_Delete (wait_txn_map ws) x) = W(x := None)"
    using hm.get_del [OF inv] by (simp add: W_def)
  show ?thesis
    using r get hm.inv_del [OF inv] by (simp add: DecrementWaitersImpl_def maps_inv_def W_def)
qed

definition new_wait :: "TransactionID list \<Rightarrow> string \<Rightarrow> u32 \<Rightarrow> bool \<Rightarrow> TrackedTrxInfo" where
  "new_wait wait_ids key cf_id excl =
     \<lparr>m_neighbors = wait_ids, m_cf_id = cf_id, m_exclusive = excl, m_waiting_key = key\<rparr>"

definition enter_wait :: "WaitMaps \<Rightarrow> TransactionID \<Rightarrow> TrackedTrxInfo \<Rightarrow> WaitMaps" where
  "enter_wait ws x info =
     ws\<lparr>wait_txn_map := HashMap_Insert (wait_txn_map ws) x info,
        rev_wait_txn_map := increment_rev (rev_wait_txn_map ws) (m_neighbors info)\<rparr>"

lemma enter_wait_ok:
  assumes "maps_inv ws" "HashMap_Get (wait_txn_map ws) x = None"
  shows "maps_inv (enter_wait ws x info)"
    and "HashMap_Get (wait_txn_map (enter_wait ws x info)) = (HashMap_Get (wait_txn_map ws))(x \<mapsto> info)"
proof -
  define W where "W = HashMap_Get (wait_txn_map ws)"
  have inv: "hm_inv (wait_txn_map ws)" and c: "counts_as (rev_wait_txn_map ws) (nwait W)"
    using assms(1) by (simp_all add: maps_inv_def W_def)
  have "nwait (W(x \<mapsto> info)) = (\<lambda>w. nwait W w + count_list (m_neighbors info) w)"
    using nwait_insert [of W x info] finite_dom_HashMap_Get assms(2) by (auto simp: W_def)
  then have "counts_as (increment_rev (rev_wait_txn_map ws) (m_neighbors info)) (nwait (W(x \<mapsto> info)))"
    using counts_as_increment_rev [OF c] by simp
  moreover show "HashMap_Get (wait_txn_map (enter_wait ws x info)) = (HashMap_Get (wait_txn_map ws))(x \<mapsto> info)"
    using hm.get_ins [OF inv assms(2)] by (simp add: enter_wait_def)
  ultimately show "maps_inv (enter_wait ws x info)"
    using hm.inv_ins [OF inv assms(2)] by (simp add: maps_inv_def enter_wait_def W_def)
qed

definition is_wait_cycle :: "TrackedTrxInfo HashMap \<Rightarrow> TransactionID \<Rightarrow> TransactionID list \<Rightarrow> DeadlockInfo list \<Rightarrow> bool" where
  "is_wait_cycle m x wait_ids path \<longleftrightarrow>
     path \<noteq> [] \<and> m_txn_id (hd path) \<in> set wait_ids \<and> m_txn_id (last path) = x \<and>
     successively (\<lambda>a b. (m_txn_id a, m_txn_id b) \<in> waits_for m) path"

definition reports_deadlock :: "WaitMaps \<Rightarrow> TransactionID \<Rightarrow> TransactionID list \<Rightarrow> DeadlockPath \<Rightarrow> bool" where
  "reports_deadlock ws x wait_ids p \<longleftrightarrow>
     limit_exceeded p \<or> is_wait_cycle (wait_txn_map ws) x wait_ids (dl_path p)"

lemma no_wait_on_self:
  assumes "maps_inv ws" "\<not> HashMap_Contains (rev_wait_txn_map ws) x"
  shows "(a, x) \<notin> waits_for (wait_txn_map ws)"
proof -
  have "nwait (HashMap_Get (wait_txn_map ws)) x = 0"
    using assms by (simp add: maps_inv_def counts_as_def HashMap_Contains_iff split: if_splits)
  then show ?thesis by (simp add: nwait_0_iff finite_dom_HashMap_Get) (auto simp: waits_for_def)
qed

lemma closed_unreachable: "r `` S \<subseteq> S \<Longrightarrow> w \<in> S \<Longrightarrow> x \<notin> S \<Longrightarrow> (w, x) \<notin> r\<^sup>*"
  using Image_closed_trancl [of r S] by blast

lemma IncrementWaiters_eq:
  fixes wait_ids key cf_id excl ws x and cur_time :: "int option"
  assumes "0 \<le> depth"
  defines "ws1 \<equiv> enter_wait ws x (new_wait wait_ids key cf_id excl)"
  defines "t \<equiv> (case cur_time of None \<Rightarrow> 0 | Some t \<Rightarrow> t)"
  shows "IncrementWaiters ws x depth wait_ids key cf_id excl cur_time =
    (if \<not> HashMap_Contains (rev_wait_txn_map ws1) x then Some (False, ws1)
     else case detect_loop (wait_txn_map ws1) x (nat depth) 0 None (Some wait_ids) [] of
        No_deadlock \<Rightarrow> Some (False, ws1)
      | Found_cycle queue head \<Rightarrow>
          Option.bind (extract_path (wait_txn_map ws1) queue (Some head)) (\<lambda>path.
          Option.bind (AddNewPath (dlock_buffer ws) (DeadlockPath_new (rev path) t)) (\<lambda>b.
          map_option (Pair True) (DecrementWaitersImpl (ws1\<lparr>dlock_buffer := b\<rparr>) x wait_ids)))
      | Depth_exceeded \<Rightarrow>
          Option.bind (AddNewPath (dlock_buffer ws) (DeadlockPath_limit t True)) (\<lambda>b.
          map_option (Pair True) (DecrementWaitersImpl (ws1\<lparr>dlock_buffer := b\<rparr>) x wait_ids)))"
proof -
  define ws0 where "ws0 = ws\<lparr>wait_txn_map := HashMap_Insert (wait_txn_map ws) x
      \<lparr>m_neighbors = wait_ids, m_cf_id = cf_id, m_exclusive = excl, m_waiting_key = key\<rparr>\<rparr>"
  have e: "ws0\<lparr>rev_wait_txn_map := increment_rev (rev_wait_txn_map ws0) wait_ids\<rparr> = ws1"
    and b: "dlock_buffer ws1 = dlock_buffer ws"
    by (simp_all add: ws0_def ws1_def enter_wait_def new_wait_def)
  show ?thesis
    using assms(1) unfolding IncrementWaiters_def Let_def ws0_def [symmetric] e t_def [symmetric] b
    by simp
qed

lemma report_and_undo:
  assumes inv: "wait_inv ws" and fresh: "HashMap_Get (wait_txn_map ws) x = None"
    and info: "m_neighbors info = wait_ids" and p: "\<not> DeadlockPath_empty p"
  shows "\<exists>ws'. Option.bind (AddNewPath (dlock_buffer ws) p) (\<lambda>b.
      map_option (Pair True) (DecrementWaitersImpl ((enter_wait ws x info)\<lparr>dlock_buffer := b\<rparr>) x wait_ids)) =
      Some (True, ws') \<and> wait_inv ws' \<and> HashMap_Get (wait_txn_map ws') = HashMap_Get (wait_txn_map ws) \<and>
    AddNewPath (dlock_buffer ws) p = Some (dlock_buffer ws')"
proof -
  obtain b where b: "AddNewPath (dlock_buffer ws) p = Some b" "\<exists>n xs. dib_holds b n xs"
    using AddNewPath_ok [OF _ p] inv unfolding wait_inv_maps by blast
  have m: "maps_inv ws" using inv by (simp add: wait_inv_maps)
  note e = enter_wait_ok [OF m fresh, of info]
  have "maps_inv ((enter_wait ws x info)\<lparr>dlock_buffer := b\<rparr>)" using e(1) by (simp add: maps_inv_def)
  from DecrementWaitersImpl_ok [OF this, of x info wait_ids] e(2) info
  obtain ws' where ws': "DecrementWaitersImpl ((enter_wait ws x info)\<lparr>dlock_buffer := b\<rparr>) x wait_ids = Some ws'"
    "maps_inv ws'" "HashMap_Get (wait_txn_map ws') = (HashMap_Get (wait_txn_map ws))(x := None)"
    "dlock_buffer ws' = b" by auto
  have "(HashMap_Get (wait_txn_map ws))(x := None) = HashMap_Get (wait_txn_map ws)"
    using fresh by auto
  then show ?thesis using b ws' by (simp add: wait_inv_maps)
qed

lemma cycle_path:
  assumes m: "maps_inv ws" and fresh: "HashMap_Get (wait_txn_map ws) x = None"
    and info: "m_neighbors info = wait_ids"
    and d: "detect_loop (wait_txn_map (enter_wait ws x info)) x depth 0 None (Some wait_ids) [] = Found_cycle q h"
  shows "\<exists>path. extract_path (wait_txn_map (enter_wait ws x info)) q (Some h) = Some path \<and>
    is_wait_cycle (wait_txn_map (enter_wait ws x info)) x wait_ids (rev path)"
proof -
  let ?m = "wait_txn_map (enter_wait ws x info)"
  have q: "queue_ok ?m (set wait_ids) q \<and> h < length q \<and> fst (q ! h) = x"
    by (rule detect_cycle_queue [OF d]) (auto simp: queue_ok_def entry_ok_def)
  have "HashMap_Get ?m x \<noteq> None" using enter_wait_ok(2) [OF m fresh, of info] by simp
  then have "\<exists>path. extract_path ?m q (Some h) = Some path \<and> path \<noteq> [] \<and> m_txn_id (hd path) = x \<and>
      m_txn_id (last path) \<in> set wait_ids \<and>
      successively (\<lambda>a b. (m_txn_id b, m_txn_id a) \<in> waits_for ?m) path"
    using extract_path_chain [of ?m "set wait_ids" q h] q by auto
  then show ?thesis
    by (auto simp: is_wait_cycle_def hd_rev last_rev successively_rev)
qed

lemma IncrementWaiters_ok:
  fixes wait_ids key cf_id excl cur_time
  assumes inv: "wait_inv ws" and fresh: "HashMap_Get (wait_txn_map ws) x = None" and depth: "0 \<le> depth"
  defines "ws1 \<equiv> enter_wait ws x (new_wait wait_ids key cf_id excl)"
  defines "inc \<equiv> IncrementWaiters ws x depth wait_ids key cf_id excl cur_time"
  shows "inc = Some (False, ws1) \<and> wait_inv ws1 \<and>
      (\<forall>w\<in>set wait_ids. (w, x) \<notin> (waits_for (wait_txn_map ws1))\<^sup>*) \<or>
    (\<exists>ws' p. inc = Some (True, ws') \<and> wait_inv ws' \<and>
      HashMap_Get (wait_txn_map ws') = HashMap_Get (wait_txn_map ws) \<and>
      AddNewPath (dlock_buffer ws) p = Some (dlock_buffer ws') \<and> reports_deadlock ws1 x wait_ids p)"
proof -
  let ?info = "new_wait wait_ids key cf_id excl"
  have m: "maps_inv ws" and nb: "m_neighbors ?info = wait_ids"
    using inv by (simp_all add: wait_inv_maps new_wait_def)
  have m1: "maps_inv ws1" unfolding ws1_def by (rule enter_wait_ok [OF m fresh])
  then have inv1: "wait_inv ws1" using inv by (simp add: wait_inv_maps ws1_def enter_wait_def)
  have self: "(x, w) \<in> waits_for (wait_txn_map ws1)" if "w \<in> set wait_ids" for w
    using that enter_wait_ok(2) [OF m fresh, of ?info] nb by (simp add: ws1_def waits_for_def)
  note eq = IncrementWaiters_eq [OF depth, of ws x wait_ids key cf_id excl cur_time, folded ws1_def inc_def]
  note undo = report_and_undo [OF inv fresh nb, folded ws1_def]
  consider (alone) "\<not> HashMap_Contains (rev_wait_txn_map ws1) x"
    | (none) "detect_loop (wait_txn_map ws1) x (nat depth) 0 None (Some wait_ids) [] = No_deadlock"
      "HashMap_Contains (rev_wait_txn_map ws1) x"
    | (cycle) q h where "detect_loop (wait_txn_map ws1) x (nat depth) 0 None (Some wait_ids) [] = Found_cycle q h"
      "HashMap_Contains (rev_wait_txn_map ws1) x"
    | (deep) "detect_loop (wait_txn_map ws1) x (nat depth) 0 None (Some wait_ids) [] = Depth_exceeded"
      "HashMap_Contains (rev_wait_txn_map ws1) x"
    by (cases "detect_loop (wait_txn_map ws1) x (nat depth) 0 None (Some wait_ids) []") auto
  then show ?thesis
  proof cases
    case alone
    have "(w, x) \<notin> (waits_for (wait_txn_map ws1))\<^sup>*" if "w \<in> set wait_ids" for w
      using no_wait_on_self [OF m1 alone] self [OF that] by (metis rtranclE)
    with alone eq inv1 show ?thesis by simp
  next
    case none
    obtain S where S: "set wait_ids \<subseteq> S" "waits_for (wait_txn_map ws1) `` S \<subseteq> S" "x \<notin> S"
      using detect_none_closed [OF none(1), of "set wait_ids"] by auto
    then have "\<forall>w\<in>set wait_ids. (w, x) \<notin> (waits_for (wait_txn_map ws1))\<^sup>*"
      using closed_unreachable [OF S(2) subsetD [OF S(1)] S(3)] by simp
    with none eq inv1 show ?thesis by simp
  next
    case cycle
    obtain path where path: "extract_path (wait_txn_map ws1) q (Some h) = Some path"
      "is_wait_cycle (wait_txn_map ws1) x wait_ids (rev path)"
      using cycle_path [OF m fresh nb] cycle(1) unfolding ws1_def by blast
    let ?p = "DeadlockPath_new (rev path) (case cur_time of None \<Rightarrow> 0 | Some t \<Rightarrow> t)"
    have p: "\<not> DeadlockPath_empty ?p" "reports_deadlock ws1 x wait_ids ?p"
      using path(2) by (auto simp: DeadlockPath_empty_def DeadlockPath_new_def is_wait_cycle_def reports_deadlock_def)
    have "inc = Option.bind (AddNewPath (dlock_buffer ws) ?p) (\<lambda>b.
        map_option (Pair True) (DecrementWaitersImpl (ws1\<lparr>dlock_buffer := b\<rparr>) x wait_ids))"
      by (simp only: eq cycle path(1) simp_thms if_False detect_result.case bind.bind_lunit)
    with undo [OF p(1)] p(2) show ?thesis by metis
  next
    case deep
    let ?p = "DeadlockPath_limit (case cur_time of None \<Rightarrow> 0 | Some t \<Rightarrow> t) True"
    have p: "\<not> DeadlockPath_empty ?p" "reports_deadlock ws1 x wait_ids ?p"
      by (simp_all add: DeadlockPath_empty_def DeadlockPath_limit_def reports_deadlock_def)
    have "inc = Option.bind (AddNewPath (dlock_buffer ws) ?p) (\<lambda>b.
        map_option (Pair True) (DecrementWaitersImpl (ws1\<lparr>dlock_buffer := b\<rparr>) x wait_ids))"
      by (simp only: eq deep simp_thms if_False detect_result.case)
    with undo [OF p(1)] p(2) show ?thesis by metis
  qed
qed

section \<open>Reachable states of the detector\<close>

text \<open>
  The callers of the detector: a transaction that does not wait yet starts to wait, and one that
  waits stops, with the same list of transactions. \<open>Resize\<close> of the deadlock buffer is left to its own
  theory.
\<close>

inductive wait_step :: "WaitMaps \<Rightarrow> WaitMaps \<Rightarrow> bool" where
  start: "HashMap_Get (wait_txn_map ws) x = None \<Longrightarrow> 0 \<le> depth \<Longrightarrow>
    IncrementWaiters ws x depth wait_ids key cf_id excl cur_time = Some (found, ws') \<Longrightarrow> wait_step ws ws'"
| stop: "HashMap_Get (wait_txn_map ws) x = Some info \<Longrightarrow>
    DecrementWaiters ws x (m_neighbors info) = Some ws' \<Longrightarrow> wait_step ws ws'"

lemma acyclic_new_edges:
  assumes "acyclic r" "\<And>w. (x, w) \<in> s \<Longrightarrow> (w, x) \<notin> s\<^sup>*" "\<And>a b. (a, b) \<in> s \<Longrightarrow> a = x \<or> (a, b) \<in> r"
  shows "acyclic s"
proof -
  have *: "(a, b) \<in> r\<^sup>+ \<or> (a, x) \<in> s\<^sup>* \<and> (x, b) \<in> s\<^sup>+" if "(a, b) \<in> s\<^sup>+" for a b
    using that
  proof (induction rule: trancl_induct)
    case (base b)
    with assms(3) show ?case by blast
  next
    case (step b c)
    then have "b = x \<or> (b, c) \<in> r" using assms(3) by blast
    with step show ?case by (metis r_into_trancl' trancl.trancl_into_trancl trancl_into_rtrancl)
  qed
  have "(x, x) \<notin> s\<^sup>+" using assms(2) by (metis tranclD)
  then show ?thesis using * assms(1) unfolding acyclic_def by (metis rtrancl_trancl_trancl trancl_rtrancl_trancl)
qed

lemma wait_step_acyclic:
  assumes "wait_step ws ws'" "wait_inv ws" "acyclic (waits_for (wait_txn_map ws))"
  shows "wait_inv ws' \<and> acyclic (waits_for (wait_txn_map ws'))"
  using assms
proof cases
  case (start x depth wait_ids key cf_id excl cur_time found)
  let ?info = "new_wait wait_ids key cf_id excl"
  have get: "HashMap_Get (wait_txn_map (enter_wait ws x ?info)) = (HashMap_Get (wait_txn_map ws))(x \<mapsto> ?info)"
    by (rule enter_wait_ok(2)) (use assms(2) start(1) in \<open>simp_all add: wait_inv_maps\<close>)
  have nb: "m_neighbors ?info = wait_ids" by (simp add: new_wait_def)
  note ok = IncrementWaiters_ok [OF assms(2) start(1,2), of wait_ids key cf_id excl cur_time]
  show ?thesis
  proof (cases found)
    case True
    with ok start(3) have "wait_inv ws'" "HashMap_Get (wait_txn_map ws') = HashMap_Get (wait_txn_map ws)"
      by auto
    with assms(3) show ?thesis by (simp add: waits_for_def)
  next
    case False
    with ok start(3) have ws': "ws' = enter_wait ws x ?info" "wait_inv ws'"
      and un: "\<forall>w\<in>set wait_ids. (w, x) \<notin> (waits_for (wait_txn_map ws'))\<^sup>*" by auto
    have "acyclic (waits_for (wait_txn_map ws'))"
    proof (rule acyclic_new_edges [OF assms(3)])
      show "(w, x) \<notin> (waits_for (wait_txn_map ws'))\<^sup>*" if "(x, w) \<in> waits_for (wait_txn_map ws')" for w
      proof -
        have "w \<in> set wait_ids" using that by (simp add: waits_for_def ws'(1) get nb)
        with un show ?thesis by blast
      qed
      show "a = x \<or> (a, b) \<in> waits_for (wait_txn_map ws)" if "(a, b) \<in> waits_for (wait_txn_map ws')" for a b
        using that by (auto simp: waits_for_def ws'(1) get split: if_splits)
    qed
    with ws'(2) show ?thesis by simp
  qed
next
  case (stop x info)
  obtain ws2 where ws2: "DecrementWaitersImpl ws x (m_neighbors info) = Some ws2" "maps_inv ws2"
    "HashMap_Get (wait_txn_map ws2) = (HashMap_Get (wait_txn_map ws))(x := None)" "dlock_buffer ws2 = dlock_buffer ws"
    using DecrementWaitersImpl_ok [OF _ stop(1) refl] assms(2) by (auto simp: wait_inv_maps)
  then have "ws' = ws2" using stop(2) by (simp add: DecrementWaiters_def)
  moreover have "waits_for (wait_txn_map ws2) \<subseteq> waits_for (wait_txn_map ws)"
    by (auto simp: waits_for_def ws2(3) split: if_splits)
  ultimately show ?thesis
    using ws2 assms(2,3) acyclic_subset by (auto simp: wait_inv_maps)
qed

lemma wait_inv_new: "wait_inv (WaitMaps_new n)"
  and waits_for_new: "waits_for (wait_txn_map (WaitMaps_new n)) = {}"
proof -
  have "HashMap_Get (HashMap_new :: 'v HashMap) = Map.empty" by (auto simp: hm.get_new)
  then show "wait_inv (WaitMaps_new n)" "waits_for (wait_txn_map (WaitMaps_new n)) = {}"
    using dib_holds_new [of n]
    by (auto simp: wait_inv_def WaitMaps_new_def hm.inv_new counts_as_def hm.get_new nwait_def waits_for_def)
qed

section \<open>Properties\<close>

text \<open>
  C8: No deadlock among the transactions that use detection. In every state the detector reaches,
  whatever transactions start and stop waiting for whichever others and with whatever search depth,
  the waits-for graph has no cycle, and the reverse map counts exactly the waiters of each transaction.
\<close>

theorem waits_for_graph_acyclic:
  "wait_step\<^sup>*\<^sup>* (WaitMaps_new n) ws \<Longrightarrow>
    wait_inv ws \<and> acyclic (waits_for (wait_txn_map ws))"
proof (induction rule: rtranclp_induct)
  case base
  show ?case by (simp add: wait_inv_new waits_for_new acyclic_def)
next
  case (step ws ws')
  then show ?case using wait_step_acyclic by blast
qed

lemma one_wait:
  "\<exists>ws. IncrementWaiters (WaitMaps_new 5) 1 10 [2] ''k'' 0 True None = Some (False, ws) \<and>
    HashMap_Get (wait_txn_map ws) 1 = Some (new_wait [2] ''k'' 0 True) \<and>
    HashMap_Get (wait_txn_map ws) 2 = None"
proof -
  let ?ws = "WaitMaps_new 5" and ?info = "new_wait [2] ''k'' 0 True"
  have fresh: "HashMap_Get (wait_txn_map ?ws) x = None" for x by (simp add: WaitMaps_new_def hm.get_new)
  have inv: "maps_inv ?ws" using wait_inv_new by (simp add: wait_inv_maps)
  have "counts_as (rev_wait_txn_map (enter_wait ?ws 1 ?info)) (\<lambda>w. 0 + count_list [2] w)"
    using counts_as_increment_rev [of HashMap_new "\<lambda>_. 0" "[2]"]
    by (simp add: counts_as_def hm.inv_new hm.get_new enter_wait_def WaitMaps_new_def new_wait_def)
  then have "\<not> HashMap_Contains (rev_wait_txn_map (enter_wait ?ws 1 ?info)) 1"
    by (simp add: counts_as_def HashMap_Contains_iff)
  then have "IncrementWaiters ?ws 1 10 [2] ''k'' 0 True None = Some (False, enter_wait ?ws 1 ?info)"
    by (simp add: IncrementWaiters_eq)
  then show ?thesis by (simp add: enter_wait_ok(2) [OF inv fresh] fresh)
qed

theorem waits_for_graph_acyclic_witness:
  "\<exists>ws. wait_step\<^sup>*\<^sup>* (WaitMaps_new 5) ws \<and> (1, 2) \<in> waits_for (wait_txn_map ws) \<and>
    acyclic (waits_for (wait_txn_map ws))"
proof -
  obtain ws where ws: "IncrementWaiters (WaitMaps_new 5) 1 10 [2] ''k'' 0 True None = Some (False, ws)"
    "HashMap_Get (wait_txn_map ws) 1 = Some (new_wait [2] ''k'' 0 True)"
    using one_wait by blast
  have "HashMap_Get (wait_txn_map (WaitMaps_new 5)) 1 = None" by (simp add: WaitMaps_new_def hm.get_new)
  from wait_step.start [OF this _ ws(1)] have "wait_step\<^sup>*\<^sup>* (WaitMaps_new 5) ws" by simp
  with waits_for_graph_acyclic [OF this] ws(2) show ?thesis
    by (auto simp: waits_for_def new_wait_def)
qed



end
