(* ===== verification/Point_Lock_Manager.thy ===== *)
theory Point_Lock_Manager
  imports Status FastRange Deadlock_Detect Lock_Tracker
begin

text \<open>
  The lock table of \<^verbatim>\<open>lock/point/point_lock_manager.{h,cc}\<close>: per column family a \<^verbatim>\<open>LockMap\<close> of stripes,
  per stripe a map from keys to the transactions that hold them. This theory has the table and the
  operations that run under a stripe mutex or the map mutex; waiting for a lock is in \<open>Lock_Wait\<close>.

  A \<^verbatim>\<open>shared_ptr<LockMap>\<close> is an index into \<open>lock_map_heap\<close>: column families and the caches of threads
  share lock maps by pointer, and a dropped one stays alive for those that still have it. A thread is
  a number. The hash \<^verbatim>\<open>GetSliceNPHash64\<close> and the call \<^verbatim>\<open>TryStealingExpiredTransactionLocks\<close> into the
  transaction database are the arguments \<open>hash\<close> and \<open>steal\<close> (the latter on the database's state); the
  time \<^verbatim>\<open>env->NowMicros\<close> reads is the argument \<open>now\<close>. \<^verbatim>\<open>vector::at\<close> out of range throws: \<^const>\<open>None\<close>.
\<close>

section \<open>Data\<close>

record LockInfo =
  exclusive :: bool
  txn_ids :: "TransactionID list"
  expiration_time :: u64

definition LockInfo_new :: "TransactionID \<Rightarrow> u64 \<Rightarrow> bool \<Rightarrow> LockInfo" where
  "LockInfo_new txn time ex = \<lparr>exclusive = ex, txn_ids = [txn], expiration_time = time\<rparr>"

type_synonym LockMapStripe = "(string \<times> LockInfo) list"

record LockMap =
  num_stripes :: u64
  lock_cnt :: int
  lock_map_stripes :: "LockMapStripe list"

definition LockMap_new :: "u64 \<Rightarrow> LockMap" where
  "LockMap_new n = \<lparr>num_stripes = n, lock_cnt = 0, lock_map_stripes = replicate (unat n) []\<rparr>"

type_synonym LockMaps = "(ColumnFamilyId \<times> nat) list"

record PointLockManager =
  default_num_stripes :: u64
  max_num_locks :: int
  lock_map_heap :: "LockMap list"
  lock_maps :: LockMaps
  lock_maps_cache :: "nat \<Rightarrow> LockMaps option"
  wait_maps :: WaitMaps

definition PointLockManager_new :: "u64 \<Rightarrow> int \<Rightarrow> u32 \<Rightarrow> PointLockManager" where
  "PointLockManager_new stripes max_locks max_num_deadlocks =
     \<lparr>default_num_stripes = stripes, max_num_locks = max_locks, lock_map_heap = [], lock_maps = [],
      lock_maps_cache = (\<lambda>_. None), wait_maps = WaitMaps_new max_num_deadlocks\<rparr>"

section \<open>Column families\<close>

definition GetStripe :: "(string \<Rightarrow> u64) \<Rightarrow> LockMap \<Rightarrow> string \<Rightarrow> nat" where
  "GetStripe hash lm key = unat (FastRange64 (hash key) (num_stripes lm))"

definition AddColumnFamily :: "PointLockManager \<Rightarrow> ColumnFamilyId \<Rightarrow> PointLockManager" where
  "AddColumnFamily m cf =
     (case map_of (lock_maps m) cf of
        None \<Rightarrow> m\<lparr>lock_map_heap := lock_map_heap m @ [LockMap_new (default_num_stripes m)],
                  lock_maps := AList.update cf (length (lock_map_heap m)) (lock_maps m)\<rparr>
      | Some _ \<Rightarrow> m)"

definition RemoveColumnFamily :: "PointLockManager \<Rightarrow> ColumnFamilyId \<Rightarrow> PointLockManager" where
  "RemoveColumnFamily m cf =
     (case map_of (lock_maps m) cf of
        None \<Rightarrow> m
      | Some _ \<Rightarrow> m\<lparr>lock_maps := AList.delete cf (lock_maps m), lock_maps_cache := (\<lambda>_. None)\<rparr>)"

definition GetLockMap :: "nat \<Rightarrow> PointLockManager \<Rightarrow> ColumnFamilyId \<Rightarrow> nat option \<times> PointLockManager" where
  "GetLockMap thread m cf =
     (let m = (if lock_maps_cache m thread = None
               then m\<lparr>lock_maps_cache := (lock_maps_cache m)(thread := Some [])\<rparr> else m);
          cache = (case lock_maps_cache m thread of None \<Rightarrow> [] | Some c \<Rightarrow> c)
      in case map_of cache cf of
           Some lock_map \<Rightarrow> (Some lock_map, m)
         | None \<Rightarrow>
             (case map_of (lock_maps m) cf of
                None \<Rightarrow> (None, m)
              | Some lock_map \<Rightarrow>
                  (Some lock_map,
                   m\<lparr>lock_maps_cache := (lock_maps_cache m)(thread := Some (AList.update cf lock_map cache))\<rparr>)))"

section \<open>Locking a key under the stripe mutex\<close>

fun steal_holders ::
  "(TransactionID \<Rightarrow> 'x \<Rightarrow> bool \<times> 'x) \<Rightarrow> TransactionID \<Rightarrow> TransactionID list \<Rightarrow> 'x \<Rightarrow> bool \<times> 'x" where
  "steal_holders steal txn [] x = (True, x)"
| "steal_holders steal txn (holder # holders) x =
     (if txn = holder then steal_holders steal txn holders x
      else case steal holder x of
             (success, x) \<Rightarrow> if success then steal_holders steal txn holders x else (False, x))"

definition IsLockExpired ::
  "(TransactionID \<Rightarrow> 'x \<Rightarrow> bool \<times> 'x) \<Rightarrow> TransactionID \<Rightarrow> LockInfo \<Rightarrow> u64 \<Rightarrow> u64 \<Rightarrow> 'x \<Rightarrow> bool \<times> u64 \<times> 'x" where
  "IsLockExpired steal txn lock_info now expire_time x =
     (if expiration_time lock_info = 0 then (False, 0, x)
      else if \<not> expiration_time lock_info \<le> now then (False, expiration_time lock_info, x)
      else case steal_holders steal txn (txn_ids lock_info) x of
             (True, x) \<Rightarrow> (True, expire_time, x)
           | (False, x) \<Rightarrow> (False, 0, x))"

definition put_key :: "LockMap \<Rightarrow> nat \<Rightarrow> string \<Rightarrow> LockInfo \<Rightarrow> LockMap" where
  "put_key lm i key info =
     lm\<lparr>lock_map_stripes := (lock_map_stripes lm)[i := AList.update key info (lock_map_stripes lm ! i)]\<rparr>"

definition erase_key :: "LockMap \<Rightarrow> nat \<Rightarrow> string \<Rightarrow> LockMap" where
  "erase_key lm i key =
     lm\<lparr>lock_map_stripes := (lock_map_stripes lm)[i := AList.delete key (lock_map_stripes lm ! i)]\<rparr>"

definition AcquireLocked ::
  "(TransactionID \<Rightarrow> 'x \<Rightarrow> bool \<times> 'x) \<Rightarrow> int \<Rightarrow> LockMap \<Rightarrow> nat \<Rightarrow> string \<Rightarrow> u64 \<Rightarrow> LockInfo \<Rightarrow>
   u64 \<Rightarrow> TransactionID list \<Rightarrow> 'x \<Rightarrow> Status \<times> LockMap \<times> u64 \<times> TransactionID list \<times> 'x" where
  "AcquireLocked steal max_locks lm i key now txn_lock_info expire_time ids x =
     (case map_of (lock_map_stripes lm ! i) key of
        Some lock_info \<Rightarrow>
          if exclusive lock_info \<or> exclusive txn_lock_info
          then if length (txn_ids lock_info) = 1 \<and> txn_ids lock_info ! 0 = txn_ids txn_lock_info ! 0
               then (OK, put_key lm i key (lock_info\<lparr>exclusive := exclusive txn_lock_info,
                                                     expiration_time := expiration_time txn_lock_info\<rparr>),
                     expire_time, ids, x)
               else (case IsLockExpired steal (txn_ids txn_lock_info ! 0) lock_info now expire_time x of
                       (True, expire_time, x) \<Rightarrow>
                         (OK, put_key lm i key (lock_info\<lparr>txn_ids := txn_ids txn_lock_info,
                                                         exclusive := exclusive txn_lock_info,
                                                         expiration_time := expiration_time txn_lock_info\<rparr>),
                          expire_time, ids, x)
                     | (False, expire_time, x) \<Rightarrow>
                         (TimedOut kLockTimeout, lm, expire_time, txn_ids lock_info, x))
          else (OK, put_key lm i key (lock_info\<lparr>txn_ids := txn_ids lock_info @ [txn_ids txn_lock_info ! 0],
                                                expiration_time := max (expiration_time lock_info)
                                                                       (expiration_time txn_lock_info)\<rparr>),
                expire_time, ids, x)
      | None \<Rightarrow>
          if max_locks > 0 \<and> lock_cnt lm \<ge> max_locks
          then (Busy kLockLimit, lm, expire_time, ids, x)
          else let lm = put_key lm i key txn_lock_info
               in (OK, if max_locks \<noteq> 0 then lm\<lparr>lock_cnt := lock_cnt lm + 1\<rparr> else lm, expire_time, ids, x))"

definition UnLockKey :: "int \<Rightarrow> TransactionID \<Rightarrow> string \<Rightarrow> nat \<Rightarrow> LockMap \<Rightarrow> LockMap" where
  "UnLockKey max_locks txn key i lm =
     (case map_of (lock_map_stripes lm ! i) key of
        None \<Rightarrow> lm
      | Some lock_info \<Rightarrow>
          (case find_index (\<lambda>t. t = txn) (txn_ids lock_info) of
             None \<Rightarrow> lm
           | Some j \<Rightarrow>
               let lm = (if length (txn_ids lock_info) = 1 then erase_key lm i key
                         else put_key lm i key (lock_info\<lparr>txn_ids := swap_remove_at j (txn_ids lock_info)\<rparr>))
               in if max_locks > 0 then lm\<lparr>lock_cnt := lock_cnt lm - 1\<rparr> else lm))"

section \<open>Unlocking\<close>

definition UnLock_key ::
  "(string \<Rightarrow> u64) \<Rightarrow> nat \<Rightarrow> PointLockManager \<Rightarrow> TransactionID \<Rightarrow> ColumnFamilyId \<Rightarrow> string \<Rightarrow>
   PointLockManager option" where
  "UnLock_key hash thread m txn cf key =
     (case GetLockMap thread m cf of
        (None, m) \<Rightarrow> Some m
      | (Some a, m) \<Rightarrow>
          let lock_map = lock_map_heap m ! a;
              stripe_num = GetStripe hash lock_map key
          in if stripe_num \<ge> length (lock_map_stripes lock_map) then None
             else Some (m\<lparr>lock_map_heap := (lock_map_heap m)
                            [a := UnLockKey (max_num_locks m) txn key stripe_num lock_map]\<rparr>))"

fun keys_by_stripe ::
  "(string \<Rightarrow> u64) \<Rightarrow> LockMap \<Rightarrow> (nat \<times> string list) list \<Rightarrow> string list \<Rightarrow> (nat \<times> string list) list" where
  "keys_by_stripe hash lock_map buckets [] = buckets"
| "keys_by_stripe hash lock_map buckets (key # keys) =
     (let stripe_num = GetStripe hash lock_map key;
          bucket = (case map_of buckets stripe_num of None \<Rightarrow> [] | Some ks \<Rightarrow> ks)
      in keys_by_stripe hash lock_map (AList.update stripe_num (bucket @ [key]) buckets) keys)"

fun unlock_stripes :: "int \<Rightarrow> TransactionID \<Rightarrow> LockMap \<Rightarrow> (nat \<times> string list) list \<Rightarrow> LockMap option" where
  "unlock_stripes max_locks txn lock_map [] = Some lock_map"
| "unlock_stripes max_locks txn lock_map ((stripe_num, stripe_keys) # buckets) =
     (if stripe_num \<ge> length (lock_map_stripes lock_map) then None
      else unlock_stripes max_locks txn
             (foldl (\<lambda>lm key. UnLockKey max_locks txn key stripe_num lm) lock_map stripe_keys) buckets)"

fun UnLock_cfs ::
  "(string \<Rightarrow> u64) \<Rightarrow> nat \<Rightarrow> PointLockManager \<Rightarrow> TransactionID \<Rightarrow> TrackedKeys \<Rightarrow> ColumnFamilyId list \<Rightarrow>
   PointLockManager option" where
  "UnLock_cfs hash thread m txn tracker [] = Some m"
| "UnLock_cfs hash thread m txn tracker (cf # cfs) =
     (case GetLockMap thread m cf of
        (None, m) \<Rightarrow> Some m
      | (Some a, m) \<Rightarrow>
          Option.bind (GetKeyIterator tracker cf) (\<lambda>keys.
          Option.bind (unlock_stripes (max_num_locks m) txn (lock_map_heap m ! a)
                         (keys_by_stripe hash (lock_map_heap m ! a) [] keys)) (\<lambda>lock_map.
          UnLock_cfs hash thread (m\<lparr>lock_map_heap := (lock_map_heap m)[a := lock_map]\<rparr>) txn tracker cfs)))"

definition UnLock_tracker ::
  "(string \<Rightarrow> u64) \<Rightarrow> nat \<Rightarrow> PointLockManager \<Rightarrow> TransactionID \<Rightarrow> TrackedKeys \<Rightarrow> PointLockManager option" where
  "UnLock_tracker hash thread m txn tracker =
     UnLock_cfs hash thread m txn tracker (GetColumnFamilyIterator tracker)"

section \<open>Reporting\<close>

record KeyLockInfo =
  kli_key :: string
  kli_ids :: "TransactionID list"
  kli_exclusive :: bool

definition GetPointLockStatus :: "PointLockManager \<Rightarrow> (ColumnFamilyId \<times> KeyLockInfo) list" where
  "GetPointLockStatus m =
     concat (map (\<lambda>cf. case map_of (lock_maps m) cf of
                         None \<Rightarrow> []
                       | Some a \<Rightarrow>
                           concat (map (map (\<lambda>(key, info). (cf, \<lparr>kli_key = key, kli_ids = txn_ids info,
                                                                 kli_exclusive = exclusive info\<rparr>)))
                                     (lock_map_stripes (lock_map_heap m ! a))))
               (sort (map fst (lock_maps m))))"

definition GetDeadlockInfoBuffer :: "PointLockManager \<Rightarrow> DeadlockPath list option" where
  "GetDeadlockInfoBuffer m = PrepareBuffer (dlock_buffer (wait_maps m))"

definition PLM_Resize :: "PointLockManager \<Rightarrow> u32 \<Rightarrow> PointLockManager option" where
  "PLM_Resize m target =
     map_option (\<lambda>b. m\<lparr>wait_maps := (wait_maps m)\<lparr>dlock_buffer := b\<rparr>\<rparr>) (Resize (dlock_buffer (wait_maps m)) target)"

definition PLM_TryLock_range :: Status where
  "PLM_TryLock_range = NotSupported_msg ''PointLockManager does not support range locking'' ''''"

section \<open>The striped table as one table\<close>

definition info_ok :: "LockInfo \<Rightarrow> bool" where
  "info_ok li \<longleftrightarrow> txn_ids li \<noteq> [] \<and> (exclusive li \<longrightarrow> length (txn_ids li) = 1)"

definition lm_ok :: "(string \<Rightarrow> u64) \<Rightarrow> LockMap \<Rightarrow> bool" where
  "lm_ok hash lm \<longleftrightarrow> 0 < num_stripes lm \<and> length (lock_map_stripes lm) = unat (num_stripes lm) \<and>
     (\<forall>i<length (lock_map_stripes lm). alist_ok (lock_map_stripes lm ! i) \<and>
        (\<forall>p\<in>set (lock_map_stripes lm ! i). GetStripe hash lm (fst p) = i \<and> info_ok (snd p)))"

definition lock_at :: "(string \<Rightarrow> u64) \<Rightarrow> LockMap \<Rightarrow> string \<Rightarrow> LockInfo option" where
  "lock_at hash lm key = map_of (lock_map_stripes lm ! GetStripe hash lm key) key"

lemma GetStripe_less: "lm_ok hash lm \<Longrightarrow> GetStripe hash lm key < length (lock_map_stripes lm)"
proof -
  assume ok: "lm_ok hash lm"
  have "FastRange64 (hash key) (num_stripes lm) < num_stripes lm"
    using ok FastRange64_bound by (simp add: lm_ok_def)
  with ok show ?thesis by (simp add: GetStripe_def lm_ok_def word_less_nat_alt)
qed

lemma lm_ok_stripe:
  assumes "lm_ok hash lm" "i < length (lock_map_stripes lm)"
  shows "alist_ok (lock_map_stripes lm ! i)"
    and "map_of (lock_map_stripes lm ! i) key = Some li \<Longrightarrow> GetStripe hash lm key = i \<and> info_ok li"
proof -
  have st: "\<And>p. p \<in> set (lock_map_stripes lm ! i) \<Longrightarrow> GetStripe hash lm (fst p) = i \<and> info_ok (snd p)"
    using assms unfolding lm_ok_def by blast
  show "alist_ok (lock_map_stripes lm ! i)" using assms by (simp add: lm_ok_def)
  show "map_of (lock_map_stripes lm ! i) key = Some li \<Longrightarrow> GetStripe hash lm key = i \<and> info_ok li"
    using st by (force dest: map_of_SomeD)
qed

lemma lock_at_info_ok: "lm_ok hash lm \<Longrightarrow> lock_at hash lm key = Some li \<Longrightarrow> info_ok li"
  unfolding lock_at_def using lm_ok_stripe(2) GetStripe_less by blast

lemma GetStripe_put [simp]:
  "GetStripe hash (put_key lm i k info) = GetStripe hash lm"
  "GetStripe hash (erase_key lm i k) = GetStripe hash lm"
  "GetStripe hash (lm\<lparr>lock_cnt := c\<rparr>) = GetStripe hash lm"
  by (simp_all add: GetStripe_def put_key_def erase_key_def fun_eq_iff)

lemma put_key_simps [simp]:
  "lock_cnt (put_key lm i k info) = lock_cnt lm" "lock_cnt (erase_key lm i k) = lock_cnt lm"
  "num_stripes (put_key lm i k info) = num_stripes lm" "num_stripes (erase_key lm i k) = num_stripes lm"
  "length (lock_map_stripes (put_key lm i k info)) = length (lock_map_stripes lm)"
  "length (lock_map_stripes (erase_key lm i k)) = length (lock_map_stripes lm)"
  by (simp_all add: put_key_def erase_key_def)

lemma lock_at_cnt [simp]:
  "lock_at hash (lm\<lparr>lock_cnt := c\<rparr>) = lock_at hash lm" "lm_ok hash (lm\<lparr>lock_cnt := c\<rparr>) = lm_ok hash lm"
  by (simp_all add: lock_at_def fun_eq_iff lm_ok_def)

lemma lock_at_put:
  assumes "lm_ok hash lm" "i = GetStripe hash lm key"
  shows "lock_at hash (put_key lm i key info) = (lock_at hash lm)(key \<mapsto> info)"
  using GetStripe_less [OF assms(1), of key] assms(2)
  by (auto simp: fun_eq_iff lock_at_def) (auto simp: put_key_def nth_list_update)

lemma lock_at_erase:
  assumes "lm_ok hash lm" "i = GetStripe hash lm key"
  shows "lock_at hash (erase_key lm i key) = (lock_at hash lm)(key := None)"
  using GetStripe_less [OF assms(1), of key] assms(2)
  by (auto simp: fun_eq_iff lock_at_def) (auto simp: erase_key_def nth_list_update)

lemma lm_ok_upd:
  assumes "lm_ok hash lm" "alist_ok st"
    and "\<And>p. p \<in> set st \<Longrightarrow> GetStripe hash lm (fst p) = i \<and> info_ok (snd p)"
  shows "lm_ok hash (lm\<lparr>lock_map_stripes := (lock_map_stripes lm)[i := st]\<rparr>)"
proof -
  have "GetStripe hash (lm\<lparr>lock_map_stripes := s\<rparr>) = GetStripe hash lm" for s
    by (simp add: GetStripe_def fun_eq_iff)
  moreover have "(lock_map_stripes lm)[i := st] ! j = (if j = i then st else lock_map_stripes lm ! j)"
    if "j < length (lock_map_stripes lm)" for j
    using that by auto
  ultimately show ?thesis using assms unfolding lm_ok_def by simp
qed

lemma lm_ok_put:
  assumes "lm_ok hash lm" "info_ok info"
  shows "lm_ok hash (put_key lm (GetStripe hash lm key) key info)"
proof -
  let ?i = "GetStripe hash lm key"
  have st: "alist_ok (lock_map_stripes lm ! ?i)"
    "\<And>p. p \<in> set (lock_map_stripes lm ! ?i) \<Longrightarrow> GetStripe hash lm (fst p) = ?i \<and> info_ok (snd p)"
    using assms(1) GetStripe_less [OF assms(1), of key] unfolding lm_ok_def by blast+
  show ?thesis unfolding put_key_def
    by (rule lm_ok_upd [OF assms(1)]) (use st assms(2) in \<open>auto simp: alist_update_set\<close>)
qed

lemma lm_ok_erase:
  assumes "lm_ok hash lm"
  shows "lm_ok hash (erase_key lm (GetStripe hash lm key) key)"
proof -
  let ?i = "GetStripe hash lm key"
  have st: "alist_ok (lock_map_stripes lm ! ?i)"
    "\<And>p. p \<in> set (lock_map_stripes lm ! ?i) \<Longrightarrow> GetStripe hash lm (fst p) = ?i \<and> info_ok (snd p)"
    using assms(1) GetStripe_less [OF assms(1), of key] unfolding lm_ok_def by blast+
  show ?thesis unfolding erase_key_def
    by (rule lm_ok_upd [OF assms(1)]) (use st in \<open>auto simp: alist_delete_set\<close>)
qed

lemma lm_ok_new: "0 < n \<Longrightarrow> lm_ok hash (LockMap_new n)"
  and lock_at_new: "0 < n \<Longrightarrow> lock_at hash (LockMap_new n) = Map.empty"
proof -
  assume n: "0 < n"
  show ok: "lm_ok hash (LockMap_new n)" using n by (simp add: lm_ok_def LockMap_new_def)
  show "lock_at hash (LockMap_new n) = Map.empty"
    using GetStripe_less [OF ok] by (simp add: lock_at_def LockMap_new_def fun_eq_iff)
qed

subsection \<open>The specification: a table without stripes\<close>

type_synonym lock_table = "(string \<Rightarrow> LockInfo option) \<times> int"

definition table_of :: "(string \<Rightarrow> u64) \<Rightarrow> LockMap \<Rightarrow> lock_table" where
  "table_of hash lm = (lock_at hash lm, lock_cnt lm)"

definition table_acquire ::
  "(TransactionID \<Rightarrow> 'x \<Rightarrow> bool \<times> 'x) \<Rightarrow> int \<Rightarrow> lock_table \<Rightarrow> string \<Rightarrow> u64 \<Rightarrow> LockInfo \<Rightarrow>
   u64 \<Rightarrow> TransactionID list \<Rightarrow> 'x \<Rightarrow> Status \<times> lock_table \<times> u64 \<times> TransactionID list \<times> 'x" where
  "table_acquire steal max_locks = (\<lambda>(T, cnt) key now info expire_time ids x.
     let txn = txn_ids info ! 0
     in case T key of
          None \<Rightarrow>
            if max_locks > 0 \<and> cnt \<ge> max_locks then (Busy kLockLimit, (T, cnt), expire_time, ids, x)
            else (OK, (T(key \<mapsto> info), if max_locks \<noteq> 0 then cnt + 1 else cnt), expire_time, ids, x)
        | Some li \<Rightarrow>
            if \<not> exclusive li \<and> \<not> exclusive info
            then (OK, (T(key \<mapsto> li\<lparr>txn_ids := txn_ids li @ [txn],
                                   expiration_time := max (expiration_time li) (expiration_time info)\<rparr>), cnt),
                  expire_time, ids, x)
            else if txn_ids li = [txn]
            then (OK, (T(key \<mapsto> li\<lparr>exclusive := exclusive info, expiration_time := expiration_time info\<rparr>), cnt),
                  expire_time, ids, x)
            else case IsLockExpired steal txn li now expire_time x of
                   (True, expire_time, x) \<Rightarrow> (OK, (T(key \<mapsto> info), cnt), expire_time, ids, x)
                 | (False, expire_time, x) \<Rightarrow> (TimedOut kLockTimeout, (T, cnt), expire_time, txn_ids li, x))"

definition release :: "TransactionID \<Rightarrow> LockInfo \<Rightarrow> LockInfo option" where
  "release txn li =
     (case find_index (\<lambda>t. t = txn) (txn_ids li) of
        None \<Rightarrow> Some li
      | Some j \<Rightarrow> if length (txn_ids li) = 1 then None
                  else Some (li\<lparr>txn_ids := swap_remove_at j (txn_ids li)\<rparr>))"

definition table_unlock :: "int \<Rightarrow> lock_table \<Rightarrow> TransactionID \<Rightarrow> string \<Rightarrow> lock_table" where
  "table_unlock max_locks = (\<lambda>(T, cnt) txn key.
     (T(key := Option.bind (T key) (release txn)),
      if max_locks > 0 \<and> (\<exists>li. T key = Some li \<and> txn \<in> set (txn_ids li)) then cnt - 1 else cnt))"

definition single :: "LockInfo \<Rightarrow> bool" where
  "single info \<longleftrightarrow> length (txn_ids info) = 1"

lemma single_new [simp]: "single (LockInfo_new txn t ex)"
  by (simp add: single_def LockInfo_new_def)

lemma length_1_eq: "length xs = 1 \<and> xs ! 0 = y \<longleftrightarrow> xs = [y]"
  by (cases xs) auto

lemma single_info_ok: "single info \<Longrightarrow> info_ok info" "single info \<Longrightarrow> txn_ids info = [txn_ids info ! 0]"
  by (auto simp: single_def info_ok_def) (metis One_nat_def length_1_eq)

lemma LockInfo_replace:
  "li\<lparr>txn_ids := txn_ids info, exclusive := exclusive info, expiration_time := expiration_time info\<rparr> = (info :: LockInfo)"
  by simp

lemma AcquireLocked_table:
  assumes ok: "lm_ok hash lm" and single: "single info"
    and acq: "AcquireLocked steal max_locks lm (GetStripe hash lm key) key now info e ids x = (s, lm', e', ids', x')"
  shows "table_acquire steal max_locks (table_of hash lm) key now info e ids x =
      (s, table_of hash lm', e', ids', x')"
    and "lm_ok hash lm'" and "num_stripes lm' = num_stripes lm"
proof -
  note put = lock_at_put [OF ok refl]
  note inf = single_info_ok [OF single]
  let ?li = "map_of (lock_map_stripes lm ! GetStripe hash lm key) key"
  have at: "lock_at hash lm key = ?li" by (simp add: lock_at_def)
  have new_ok: "info_ok li \<Longrightarrow> txn_ids li = [t] \<Longrightarrow> info_ok (li\<lparr>exclusive := b, expiration_time := u\<rparr>)" for li t b u
    by (simp add: info_ok_def)
  have sh_ok: "\<not> exclusive li \<Longrightarrow> info_ok (li\<lparr>txn_ids := txn_ids li @ [t], expiration_time := u\<rparr>)" for li t u
    by (simp add: info_ok_def)
  have "table_acquire steal max_locks (table_of hash lm) key now info e ids x =
      (s, table_of hash lm', e', ids', x') \<and> lm_ok hash lm' \<and> num_stripes lm' = num_stripes lm"
  proof (cases ?li)
    case None
    with acq ok show ?thesis
      by (auto simp: AcquireLocked_def table_acquire_def table_of_def at put Let_def lm_ok_put inf split: if_splits)
  next
    case (Some li)
    have iok: "info_ok li" using lock_at_info_ok [OF ok, of key li] Some by (simp add: at)
    show ?thesis
    proof (cases "exclusive li \<or> exclusive info")
      case False
      with acq ok Some show ?thesis
        by (auto simp: AcquireLocked_def table_acquire_def table_of_def at put Let_def lm_ok_put sh_ok)
    next
      case excl: True
      show ?thesis
      proof (cases "txn_ids li = [txn_ids info ! 0]")
        case True
        with acq ok Some excl iok show ?thesis
          by (auto simp: AcquireLocked_def table_acquire_def table_of_def at put Let_def lm_ok_put new_ok)
      next
        case False
        then have "\<not> (length (txn_ids li) = 1 \<and> txn_ids li ! 0 = txn_ids info ! 0)" unfolding length_1_eq .
        note nself = this
        obtain b e1 x1 where b: "IsLockExpired steal (txn_ids info ! 0) li now e x = (b, e1, x1)"
          by (cases "IsLockExpired steal (txn_ids info ! 0) li now e x") auto
        have "AcquireLocked steal max_locks lm (GetStripe hash lm key) key now info e ids x =
            (if b then (OK, put_key lm (GetStripe hash lm key) key info, e1, ids, x1)
             else (TimedOut kLockTimeout, lm, e1, txn_ids li, x1))"
          unfolding AcquireLocked_def Some option.case b if_P [OF excl] if_not_P [OF nself] LockInfo_replace
          by simp
        moreover have "table_acquire steal max_locks (table_of hash lm) key now info e ids x =
            (if b then (OK, ((lock_at hash lm)(key \<mapsto> info), lock_cnt lm), e1, ids, x1)
             else (TimedOut kLockTimeout, table_of hash lm, e1, txn_ids li, x1))"
          using excl False by (auto simp: table_acquire_def table_of_def at Some b)
        ultimately show ?thesis
          using acq ok by (auto simp: table_of_def put lm_ok_put inf split: if_splits)
      qed
    qed
  qed
  then show "table_acquire steal max_locks (table_of hash lm) key now info e ids x =
      (s, table_of hash lm', e', ids', x')" "lm_ok hash lm'" "num_stripes lm' = num_stripes lm" by simp_all
qed

lemma find_txn: "find_index (\<lambda>t. t = txn) ids = None \<longleftrightarrow> txn \<notin> set ids"
  by (auto simp: find_index_None)

lemma release_info_ok: "info_ok li \<Longrightarrow> release txn li = Some li' \<Longrightarrow> info_ok li'"
proof (cases "find_index (\<lambda>t. t = txn) (txn_ids li)")
  case (Some j)
  assume li: "info_ok li" "release txn li = Some li'"
  with Some have len: "length (txn_ids li) \<noteq> 1" and li': "li' = li\<lparr>txn_ids := swap_remove_at j (txn_ids li)\<rparr>"
    by (auto simp: release_def split: if_splits)
  have "0 < length (txn_ids li)" using li(1) by (simp add: info_ok_def)
  with len have "0 < length (swap_remove_at j (txn_ids li))" unfolding length_swap_remove_at by linarith
  with li(1) len show ?thesis by (simp add: li' info_ok_def)
qed (simp add: release_def)

lemma UnLockKey_table:
  fixes max_locks txn key
  assumes ok: "lm_ok hash lm"
  defines "lm' \<equiv> UnLockKey max_locks txn key (GetStripe hash lm key) lm"
  shows "table_of hash lm' = table_unlock max_locks (table_of hash lm) txn key"
    and "lm_ok hash lm'" and "num_stripes lm' = num_stripes lm"
proof -
  let ?i = "GetStripe hash lm key"
  have at: "map_of (lock_map_stripes lm ! ?i) key = lock_at hash lm key" by (simp add: lock_at_def)
  have "table_of hash lm' = table_unlock max_locks (table_of hash lm) txn key \<and>
      lm_ok hash lm' \<and> num_stripes lm' = num_stripes lm"
  proof (cases "lock_at hash lm key")
    case None
    then show ?thesis by (auto simp: lm'_def UnLockKey_def at table_unlock_def table_of_def ok)
  next
    case (Some li)
    note iok = lock_at_info_ok [OF ok Some]
    show ?thesis
    proof (cases "find_index (\<lambda>t. t = txn) (txn_ids li)")
      case None
      then have "txn \<notin> set (txn_ids li)" by (simp add: find_txn)
      with None Some show ?thesis
        by (auto simp: lm'_def UnLockKey_def at table_unlock_def table_of_def ok release_def)
    next
      case j: (Some j)
      then have mem: "txn \<in> set (txn_ids li)" by (metis find_txn option.distinct(1))
      show ?thesis
      proof (cases "length (txn_ids li) = 1")
        case True
        with Some j mem show ?thesis
          by (simp add: lm'_def UnLockKey_def at table_unlock_def table_of_def lm_ok_erase [OF ok]
              release_def lock_at_erase [OF ok refl] Let_def)
      next
        case False
        with j have "release txn li = Some (li\<lparr>txn_ids := swap_remove_at j (txn_ids li)\<rparr>)"
          by (simp add: release_def)
        with False Some j mem release_info_ok [OF iok this] show ?thesis
          by (simp add: lm'_def UnLockKey_def at table_unlock_def table_of_def lm_ok_put [OF ok]
              lock_at_put [OF ok refl] Let_def)
      qed
    qed
  qed
  then show "table_of hash lm' = table_unlock max_locks (table_of hash lm) txn key"
    "lm_ok hash lm'" "num_stripes lm' = num_stripes lm" by simp_all
qed

subsection \<open>Sequences of operations\<close>

datatype lock_op =
    Op_acquire string u64 LockInfo u64 "TransactionID list"
  | Op_unlock TransactionID string

type_synonym lock_answer = "(Status \<times> u64 \<times> TransactionID list) option"

fun run_ops :: "(string \<Rightarrow> u64) \<Rightarrow> (TransactionID \<Rightarrow> 'x \<Rightarrow> bool \<times> 'x) \<Rightarrow> int \<Rightarrow> LockMap \<Rightarrow> 'x \<Rightarrow> lock_op list \<Rightarrow>
    lock_answer list \<times> LockMap \<times> 'x" where
  "run_ops hash steal max_locks lm x [] = ([], lm, x)"
| "run_ops hash steal max_locks lm x (Op_acquire key now info e ids # ops) =
     (case AcquireLocked steal max_locks lm (GetStripe hash lm key) key now info e ids x of
        (s, lm, e, ids, x) \<Rightarrow>
          (case run_ops hash steal max_locks lm x ops of (as, r) \<Rightarrow> (Some (s, e, ids) # as, r)))"
| "run_ops hash steal max_locks lm x (Op_unlock txn key # ops) =
     (case run_ops hash steal max_locks (UnLockKey max_locks txn key (GetStripe hash lm key) lm) x ops of
        (as, r) \<Rightarrow> (None # as, r))"

fun run_table :: "(TransactionID \<Rightarrow> 'x \<Rightarrow> bool \<times> 'x) \<Rightarrow> int \<Rightarrow> lock_table \<Rightarrow> 'x \<Rightarrow> lock_op list \<Rightarrow>
    lock_answer list \<times> lock_table \<times> 'x" where
  "run_table steal max_locks T x [] = ([], T, x)"
| "run_table steal max_locks T x (Op_acquire key now info e ids # ops) =
     (case table_acquire steal max_locks T key now info e ids x of
        (s, T, e, ids, x) \<Rightarrow>
          (case run_table steal max_locks T x ops of (as, r) \<Rightarrow> (Some (s, e, ids) # as, r)))"
| "run_table steal max_locks T x (Op_unlock txn key # ops) =
     (case run_table steal max_locks (table_unlock max_locks T txn key) x ops of
        (as, r) \<Rightarrow> (None # as, r))"

fun op_single :: "lock_op \<Rightarrow> bool" where
  "op_single (Op_acquire key now info e ids) = single info"
| "op_single (Op_unlock txn key) = True"

lemma run_ops_table:
  "lm_ok hash lm \<Longrightarrow> list_all op_single ops \<Longrightarrow>
    run_table steal max_locks (table_of hash lm) x ops =
      (case run_ops hash steal max_locks lm x ops of (as, lm', x') \<Rightarrow> (as, table_of hash lm', x'))"
proof (induction ops arbitrary: lm x)
  case (Cons op ops)
  show ?case
  proof (cases op)
    case (Op_acquire key now info e ids)
    obtain s lm' e' ids' x' where acq:
      "AcquireLocked steal max_locks lm (GetStripe hash lm key) key now info e ids x = (s, lm', e', ids', x')"
      by (metis prod_cases5)
    note t = AcquireLocked_table [OF Cons.prems(1) _ acq]
    have single: "single info" using Cons.prems(2) Op_acquire by simp
    show ?thesis
      using Cons.IH [OF t(2) [OF single], of x'] Cons.prems(2)
      by (simp add: Op_acquire acq t(1) [OF single] split: prod.splits)
  next
    case (Op_unlock txn key)
    note t = UnLockKey_table [OF Cons.prems(1), of max_locks txn key]
    show ?thesis
      using Cons.IH [OF t(2), of x] Cons.prems(2) by (simp add: Op_unlock t(1) split: prod.splits)
  qed
qed simp

section \<open>What locking does\<close>

lemma table_acquire_cases:
  assumes "table_acquire steal max_locks (T, cnt) key now info e ids x = (s, (T', cnt'), e', ids', x')"
    and single: "single info"
  shows "\<not> ok s \<and> T' = T \<and> cnt' = cnt \<and>
      (s = Busy kLockLimit \<and> T key = None \<and> max_locks > 0 \<and> cnt \<ge> max_locks \<and> ids' = ids \<or>
       (\<exists>li. s = TimedOut kLockTimeout \<and> T key = Some li \<and> ids' = txn_ids li \<and>
          (exclusive li \<or> exclusive info) \<and> txn_ids li \<noteq> txn_ids info)) \<or>
    (\<exists>li'. s = OK \<and> T' = T(key \<mapsto> li') \<and> txn_ids info ! 0 \<in> set (txn_ids li') \<and>
      (exclusive info \<longrightarrow> exclusive li' \<and> txn_ids li' = txn_ids info) \<and>
      cnt' = (if T key = None \<and> max_locks \<noteq> 0 then cnt + 1 else cnt) \<and>
      (T key = None \<longrightarrow> \<not> (max_locks > 0 \<and> cnt \<ge> max_locks)))"
proof -
  note ti = single_info_ok(2) [OF single]
  have mem: "txn_ids info ! 0 \<in> set (txn_ids info)" by (subst (2) ti) simp
  have st: "\<not> ok (Busy kLockLimit)" "\<not> ok (TimedOut kLockTimeout)"
    by (simp_all add: status_simps)
  show ?thesis
  proof (cases "T key")
    case None
    with assms(1) st show ?thesis
      by (auto simp: table_acquire_def Let_def ti [symmetric] mem split: if_splits)
  next
    case (Some li)
    consider (shared) "\<not> exclusive li" "\<not> exclusive info"
      | (own) "exclusive li \<or> exclusive info" "txn_ids li = txn_ids info"
      | (other) "exclusive li \<or> exclusive info" "txn_ids li \<noteq> txn_ids info" by blast
    then show ?thesis
    proof cases
      case shared
      with assms(1) Some show ?thesis by (auto simp: table_acquire_def Let_def)
    next
      case own
      with assms(1) Some show ?thesis
        by (intro disjI2 exI [of _ "li\<lparr>exclusive := exclusive info, expiration_time := expiration_time info\<rparr>"])
          (auto simp: table_acquire_def Let_def ti [symmetric] mem)
    next
      case other
      obtain b e1 x1 where b: "IsLockExpired steal (txn_ids info ! 0) li now e x = (b, e1, x1)"
        by (cases "IsLockExpired steal (txn_ids info ! 0) li now e x") auto
      with other assms(1) Some b st mem show ?thesis
        by (cases b) (auto simp: table_acquire_def Let_def ti [symmetric])
    qed
  qed
qed

text \<open>
  The moves of the system on one lock map: a transaction allowed by \<open>A\<close> asks for a lock with an
  expiration time and mode allowed by \<open>R\<close>, a transaction unlocks a key, and the transaction database
  changes in any way.
\<close>

inductive lm_step ::
  "(string \<Rightarrow> u64) \<Rightarrow> (TransactionID \<Rightarrow> 'x \<Rightarrow> bool \<times> 'x) \<Rightarrow> int \<Rightarrow> (TransactionID \<Rightarrow> bool) \<Rightarrow> (u64 \<Rightarrow> bool \<Rightarrow> bool) \<Rightarrow>
   LockMap \<times> 'x \<Rightarrow> LockMap \<times> 'x \<Rightarrow> bool"
  for hash steal max_locks A R where
  acquire: "A txn \<Longrightarrow> R t ex \<Longrightarrow>
    AcquireLocked steal max_locks lm (GetStripe hash lm key) key now (LockInfo_new txn t ex) e ids x = (s, lm', e', ids', x') \<Longrightarrow>
    lm_step hash steal max_locks A R (lm, x) (lm', x')"
| unlock: "A txn \<Longrightarrow>
    lm_step hash steal max_locks A R (lm, x) (UnLockKey max_locks txn key (GetStripe hash lm key) lm, x)"
| database: "lm_step hash steal max_locks A R (lm, x) (lm, x')"

text \<open>An invariant of the unstriped table is an invariant of every run of the striped one.\<close>

lemma lm_step_table_invariant:
  assumes step: "(lm_step hash steal max_locks A R)\<^sup>*\<^sup>* (lm0, x0) (lm, x)"
    and start: "lm_ok hash lm0" "I (table_of hash lm0)"
    and acq: "\<And>T T' txn t ex key now e ids x s e' ids' x'. A txn \<Longrightarrow> R t ex \<Longrightarrow> I T \<Longrightarrow>
      table_acquire steal max_locks T key now (LockInfo_new txn t ex) e ids x = (s, T', e', ids', x') \<Longrightarrow> I T'"
    and unl: "\<And>T txn key. A txn \<Longrightarrow> I T \<Longrightarrow> I (table_unlock max_locks T txn key)"
  shows "lm_ok hash lm \<and> I (table_of hash lm)"
proof -
  have "lm_ok hash (fst c) \<and> I (table_of hash (fst c))" if "(lm_step hash steal max_locks A R)\<^sup>*\<^sup>* (lm0, x0) c" for c
    using that
  proof (induction rule: rtranclp_induct)
    case base
    then show ?case using start by simp
  next
    case (step c c')
    from step.hyps(2) show ?case
    proof cases
      case (acquire txn t ex lm key now e ids x s lm' e' ids' x')
      note tb = AcquireLocked_table [OF _ single_new acquire(5)]
      from acquire step.IH tb acq [OF acquire(3,4)] show ?thesis by (metis fst_conv)
    next
      case (unlock txn lm x key)
      from step.IH unlock have "lm_ok hash lm" "I (table_of hash lm)" by simp_all
      with UnLockKey_table [OF this(1), of max_locks txn key] unl [OF unlock(3)] unlock(2) show ?thesis
        by simp
    next
      case (database lm x x')
      with step.IH show ?thesis by simp
    qed
  qed
  from this [OF step] show ?thesis by simp
qed

subsection \<open>Stability of exclusive locks\<close>

lemma IsLockExpired_never: "expiration_time li = 0 \<Longrightarrow> IsLockExpired steal txn li now e x = (False, 0, x)"
  by (simp add: IsLockExpired_def)

lemma table_acquire_other:
  assumes "table_acquire steal max_locks T key now info e ids x = (s, T', e', ids', x')" "single info"
    and "fst T k = Some li" "exclusive li" "txn_ids li = [a]" "expiration_time li = 0" "txn_ids info ! 0 \<noteq> a"
  shows "fst T' k = Some li"
proof (cases "k = key")
  case True
  then have "T' = T"
    using assms by (cases T) (auto simp: table_acquire_def IsLockExpired_never)
  with assms(3) show ?thesis by simp
next
  case False
  obtain T0 cnt T1 cnt' where "T = (T0, cnt)" "T' = (T1, cnt')" by (cases T, cases T')
  with table_acquire_cases [OF _ assms(2)] assms(1,3) False show ?thesis by fastforce
qed

lemma release_other: "txn \<notin> set (txn_ids li) \<Longrightarrow> release txn li = Some li"
  by (auto simp: release_def split: option.splits dest: find_index_Some)

lemma table_unlock_other:
  "fst T k = Some li \<Longrightarrow> txn \<notin> set (txn_ids li) \<Longrightarrow> fst (table_unlock max_locks T txn key) k = Some li"
  by (cases T) (auto simp: table_unlock_def release_other)

subsection \<open>The lock count\<close>

definition all_exclusive :: "lock_table \<Rightarrow> bool" where
  "all_exclusive T \<longleftrightarrow> (\<forall>k li. fst T k = Some li \<longrightarrow> exclusive li \<and> length (txn_ids li) = 1)"

definition counts_locks :: "int \<Rightarrow> lock_table \<Rightarrow> bool" where
  "counts_locks max_locks T \<longleftrightarrow> finite (dom (fst T)) \<and> all_exclusive T \<and>
     snd T = int (card (dom (fst T))) \<and> snd T \<le> max_locks"

lemma counts_locks_acquire:
  assumes acq: "table_acquire steal max_locks T key now (LockInfo_new txn t True) e ids x = (s, T', e', ids', x')"
    and inv: "counts_locks max_locks T" and mx: "0 < max_locks"
  shows "counts_locks max_locks T'"
proof -
  obtain T0 cnt T1 cnt' where T: "T = (T0, cnt)" "T' = (T1, cnt')" by (cases T, cases T')
  note c = table_acquire_cases [OF acq [unfolded T] single_new]
  have i: "txn_ids (LockInfo_new txn t True) = [txn]" "exclusive (LockInfo_new txn t True)"
    by (simp_all add: LockInfo_new_def)
  from c consider "T1 = T0" "cnt' = cnt"
    | li' where "T1 = T0(key \<mapsto> li')" "exclusive li'" "txn_ids li' = [txn]"
      "cnt' = (if T0 key = None then cnt + 1 else cnt)" "T0 key = None \<longrightarrow> cnt < max_locks"
    using mx i by auto
  then show ?thesis
  proof cases
    case 1
    with inv T show ?thesis by simp
  next
    case 2
    then have "all_exclusive T'" using inv T by (auto simp: counts_locks_def all_exclusive_def)
    moreover have "finite (dom T1)" "int (card (dom T1)) = cnt'" "cnt' \<le> max_locks"
      using 2 inv T by (auto simp: counts_locks_def card_insert_if domIff)
    ultimately show ?thesis by (simp add: counts_locks_def T)
  qed
qed

lemma counts_locks_unlock:
  assumes inv: "counts_locks max_locks T" and mx: "0 < max_locks"
  shows "counts_locks max_locks (table_unlock max_locks T txn key)"
proof -
  obtain T0 cnt where T: "T = (T0, cnt)" by (cases T)
  show ?thesis
  proof (cases "\<exists>li. T0 key = Some li \<and> txn \<in> set (txn_ids li)")
    case True
    then obtain li where li: "T0 key = Some li" "txn \<in> set (txn_ids li)" by blast
    with inv T have "length (txn_ids li) = 1" by (auto simp: counts_locks_def all_exclusive_def)
    moreover obtain j where "find_index (\<lambda>t. t = txn) (txn_ids li) = Some j"
      using li(2) find_txn [of txn] by fastforce
    ultimately have "release txn li = None" by (simp add: release_def)
    with li mx T have u: "table_unlock max_locks T txn key = (T0(key := None), cnt - 1)"
      by (auto simp: table_unlock_def)
    have d: "finite (dom T0)" "key \<in> dom T0" "cnt = int (card (dom T0))"
      using inv T li by (auto simp: counts_locks_def)
    have "int (card (dom T0 - {key})) = cnt - 1"
      using card.remove [OF d(1,2)] d(3) by linarith
    with inv T u show ?thesis by (auto simp: counts_locks_def all_exclusive_def)
  next
    case False
    then have "T0(key := Option.bind (T0 key) (release txn)) = T0"
      using release_other by (cases "T0 key") (auto simp: fun_eq_iff)
    with False inv T show ?thesis by (auto simp: table_unlock_def)
  qed
qed

section \<open>Caches of lock maps\<close>

text \<open>
  \<open>cache_ok\<close>: what a thread has cached is what the shared map has. \<open>plm_ok\<close> adds that the pointers are
  valid, that no two column families share a lock map and that every lock map is well formed.
\<close>

definition cache_ok :: "PointLockManager \<Rightarrow> bool" where
  "cache_ok m \<longleftrightarrow>
     (\<forall>thread c cf a. lock_maps_cache m thread = Some c \<longrightarrow> map_of c cf = Some a \<longrightarrow> map_of (lock_maps m) cf = Some a)"

definition plm_ok :: "(string \<Rightarrow> u64) \<Rightarrow> PointLockManager \<Rightarrow> bool" where
  "plm_ok hash m \<longleftrightarrow> cache_ok m \<and> 0 < default_num_stripes m \<and> alist_ok (lock_maps m) \<and>
     (\<forall>cf a. map_of (lock_maps m) cf = Some a \<longrightarrow> a < length (lock_map_heap m)) \<and>
     (\<forall>cf cf' a. map_of (lock_maps m) cf = Some a \<longrightarrow> map_of (lock_maps m) cf' = Some a \<longrightarrow> cf = cf') \<and>
     (\<forall>a<length (lock_map_heap m). lm_ok hash (lock_map_heap m ! a))"

lemma GetLockMap_result: "cache_ok m \<Longrightarrow> fst (GetLockMap thread m cf) = map_of (lock_maps m) cf"
  by (auto simp: GetLockMap_def cache_ok_def Let_def split: option.splits if_splits)

lemma GetLockMap_frame:
  "lock_maps (snd (GetLockMap thread m cf)) = lock_maps m"
  "lock_map_heap (snd (GetLockMap thread m cf)) = lock_map_heap m"
  "max_num_locks (snd (GetLockMap thread m cf)) = max_num_locks m"
  "default_num_stripes (snd (GetLockMap thread m cf)) = default_num_stripes m"
  "wait_maps (snd (GetLockMap thread m cf)) = wait_maps m"
  by (auto simp: GetLockMap_def Let_def split: option.splits)

lemma GetLockMap_cache: "cache_ok m \<Longrightarrow> cache_ok (snd (GetLockMap thread m cf))"
proof -
  assume ok: "cache_ok m"
  define c where "c = (case lock_maps_cache m thread of None \<Rightarrow> [] | Some c \<Rightarrow> c)"
  have c: "map_of c cf' = Some a \<Longrightarrow> map_of (lock_maps m) cf' = Some a" for cf' a
    using ok by (auto simp: c_def cache_ok_def split: option.splits)
  have "lock_maps_cache (snd (GetLockMap thread m cf)) t = (if t = thread
      then Some (case map_of (lock_maps m) cf of Some a \<Rightarrow> if map_of c cf = None then AList.update cf a c else c | None \<Rightarrow> c)
      else lock_maps_cache m t)" for t
    using c [of cf] by (auto simp: GetLockMap_def Let_def c_def split: option.splits)
  then show ?thesis
    using ok c unfolding cache_ok_def GetLockMap_frame
    by (auto split: option.splits if_splits)
qed

lemma GetLockMap_ok:
  assumes "plm_ok hash m"
  shows "\<exists>m'. GetLockMap thread m cf = (map_of (lock_maps m) cf, m') \<and> plm_ok hash m' \<and>
    lock_maps m' = lock_maps m \<and> lock_map_heap m' = lock_map_heap m \<and> max_num_locks m' = max_num_locks m"
  using assms GetLockMap_result [of m thread cf] GetLockMap_cache [of m thread cf] GetLockMap_frame [of thread m cf]
  by (intro exI [of _ "snd (GetLockMap thread m cf)"]) (auto simp: plm_ok_def prod_eq_iff)

lemma cache_ok_Add:
  assumes "cache_ok m"
  shows "cache_ok (AddColumnFamily m cf)"
  using assms by (auto simp: cache_ok_def AddColumnFamily_def split: option.splits)

lemma cache_ok_Remove: "cache_ok m \<Longrightarrow> cache_ok (RemoveColumnFamily m cf)"
  by (auto simp: cache_ok_def RemoveColumnFamily_def split: option.splits)

lemma plm_ok_Add:
  assumes ok: "plm_ok hash m"
  shows "plm_ok hash (AddColumnFamily m cf)"
proof (cases "map_of (lock_maps m) cf")
  case None
  have new: "lm_ok hash (LockMap_new (default_num_stripes m))" using ok lm_ok_new by (simp add: plm_ok_def)
  have "cache_ok (AddColumnFamily m cf)" using ok cache_ok_Add by (simp add: plm_ok_def)
  with ok None new show ?thesis
    unfolding plm_ok_def
    by (auto simp: AddColumnFamily_def nth_append less_Suc_eq split: if_splits) (metis nat_neq_iff)+
qed (use ok in \<open>simp add: AddColumnFamily_def\<close>)

lemma plm_ok_Remove: "plm_ok hash m \<Longrightarrow> plm_ok hash (RemoveColumnFamily m cf)"
  unfolding plm_ok_def using cache_ok_Remove [of m cf]
  by (auto simp: RemoveColumnFamily_def alist_delete_set split: option.splits if_splits)

lemma plm_ok_new: "0 < n \<Longrightarrow> plm_ok hash (PointLockManager_new n mx d)"
  by (simp add: plm_ok_def cache_ok_def PointLockManager_new_def)

section \<open>The locks of a database\<close>

definition plm_lock :: "(string \<Rightarrow> u64) \<Rightarrow> PointLockManager \<Rightarrow> ColumnFamilyId \<Rightarrow> string \<Rightarrow> LockInfo option" where
  "plm_lock hash m cf key = Option.bind (map_of (lock_maps m) cf) (\<lambda>a. lock_at hash (lock_map_heap m ! a) key)"

text \<open>Replacing the lock map of one column family by a well formed one.\<close>

lemma plm_put_lock_map:
  assumes ok: "plm_ok hash m" and a: "map_of (lock_maps m) cf = Some a" and lm: "lm_ok hash lm"
  defines "m' \<equiv> m\<lparr>lock_map_heap := (lock_map_heap m)[a := lm]\<rparr>"
  shows "plm_ok hash m'"
    and "plm_lock hash m' cf' = (if cf' = cf then lock_at hash lm else plm_lock hash m cf')"
proof -
  have len: "a < length (lock_map_heap m)" using ok a unfolding plm_ok_def by blast
  show "plm_ok hash m'"
    using ok lm len unfolding plm_ok_def m'_def cache_ok_def by (auto simp: nth_list_update)
  have other: "map_of (lock_maps m) cf' \<noteq> Some a" if "cf' \<noteq> cf" using ok a that unfolding plm_ok_def by blast
  show "plm_lock hash m' cf' = (if cf' = cf then lock_at hash lm else plm_lock hash m cf')"
  proof (cases "cf' = cf")
    case True
    with a len show ?thesis by (simp add: plm_lock_def m'_def fun_eq_iff)
  next
    case False
    with other have "map_of (lock_maps m) cf' \<noteq> Some a" by simp
    then show ?thesis using False by (cases "map_of (lock_maps m) cf'") (simp_all add: plm_lock_def m'_def fun_eq_iff)
  qed
qed

definition release_opt :: "TransactionID \<Rightarrow> LockInfo option \<Rightarrow> LockInfo option" where
  "release_opt txn li = Option.bind li (release txn)"

lemma UnLockKey_lock_at:
  assumes "lm_ok hash lm"
  shows "lock_at hash (UnLockKey mx txn key (GetStripe hash lm key) lm) =
    (lock_at hash lm)(key := release_opt txn (lock_at hash lm key))"
  using UnLockKey_table(1) [OF assms, of mx txn key]
  by (simp add: table_of_def table_unlock_def release_opt_def)

lemma unlock_keys:
  fixes mx txn
  assumes "lm_ok hash lm" "distinct ks" "\<And>k. k \<in> set ks \<Longrightarrow> GetStripe hash lm k = i"
  defines "lm' \<equiv> foldl (\<lambda>lm key. UnLockKey mx txn key i lm) lm ks"
  shows "lm_ok hash lm' \<and> num_stripes lm' = num_stripes lm \<and>
    lock_at hash lm' = (\<lambda>k. if k \<in> set ks then release_opt txn (lock_at hash lm k) else lock_at hash lm k)"
  unfolding lm'_def using assms(1-3)
proof (induction ks arbitrary: lm)
  case (Cons k ks)
  let ?lm = "UnLockKey mx txn k i lm"
  have i: "GetStripe hash lm k = i" using Cons.prems(3) by simp
  note t = UnLockKey_table [OF Cons.prems(1), of mx txn k, unfolded i]
  have "GetStripe hash ?lm = GetStripe hash lm" using t(3) by (simp add: GetStripe_def fun_eq_iff)
  with Cons.IH [OF t(2)] Cons.prems t(3) UnLockKey_lock_at [OF Cons.prems(1), of mx txn k, unfolded i]
  show ?case by (auto simp: fun_eq_iff)
qed auto

definition add_bucket :: "string list option \<Rightarrow> string list \<Rightarrow> string list option" where
  "add_bucket b ks = (case b of None \<Rightarrow> if ks = [] then None else Some ks | Some bs \<Rightarrow> Some (bs @ ks))"

lemma keys_by_stripe_ok: "alist_ok b \<Longrightarrow> alist_ok (keys_by_stripe hash lm b ks)"
  by (induction hash lm b ks rule: keys_by_stripe.induct) (simp_all add: Let_def)

lemma keys_by_stripe_at:
  "map_of (keys_by_stripe hash lm b ks) s = add_bucket (map_of b s) (filter (\<lambda>k. GetStripe hash lm k = s) ks)"
proof (induction hash lm b ks rule: keys_by_stripe.induct)
  case (2 hash lm b k ks)
  then show ?case
    by (cases "map_of b s") (auto simp: Let_def add_bucket_def split: option.splits)
qed (simp add: add_bucket_def split: option.split)

definition in_buckets :: "(nat \<times> string list) list \<Rightarrow> nat \<Rightarrow> string \<Rightarrow> bool" where
  "in_buckets buckets s k \<longleftrightarrow> (\<exists>bs. map_of buckets s = Some bs \<and> k \<in> set bs)"

lemma unlock_stripes_at:
  assumes "lm_ok hash lm" "alist_ok buckets"
    "\<And>s bs. (s, bs) \<in> set buckets \<Longrightarrow> s < length (lock_map_stripes lm) \<and> distinct bs \<and> (\<forall>k\<in>set bs. GetStripe hash lm k = s)"
  shows "\<exists>lm'. unlock_stripes mx txn lm buckets = Some lm' \<and> lm_ok hash lm' \<and> num_stripes lm' = num_stripes lm \<and>
    lock_at hash lm' = (\<lambda>k. if in_buckets buckets (GetStripe hash lm k) k then release_opt txn (lock_at hash lm k)
                            else lock_at hash lm k)"
  using assms
proof (induction buckets arbitrary: lm)
  case (Cons p buckets)
  obtain s bs where p: "p = (s, bs)" by force
  define lm1 where "lm1 = foldl (\<lambda>lm key. UnLockKey mx txn key s lm) lm bs"
  have b: "s < length (lock_map_stripes lm)" "distinct bs" "\<And>k. k \<in> set bs \<Longrightarrow> GetStripe hash lm k = s"
    using Cons.prems(3) [of s bs] by (auto simp: p)
  have u: "lm_ok hash lm1" "num_stripes lm1 = num_stripes lm"
    "lock_at hash lm1 = (\<lambda>k. if k \<in> set bs then release_opt txn (lock_at hash lm k) else lock_at hash lm k)"
    using unlock_keys [OF Cons.prems(1) b(2,3), where mx = mx and txn = txn] by (simp_all add: lm1_def)
  have g: "GetStripe hash lm1 = GetStripe hash lm" using u(2) by (simp add: GetStripe_def fun_eq_iff)
  have len: "length (lock_map_stripes lm1) = length (lock_map_stripes lm)"
    using u(1,2) Cons.prems(1) by (simp add: lm_ok_def)
  have "alist_ok buckets" "s \<notin> fst ` set buckets" using Cons.prems(2) by (auto simp: p)
  then have fresh: "map_of buckets s = None" by (simp add: map_of_eq_None_iff)
  have pre: "s' < length (lock_map_stripes lm1) \<and> distinct bs' \<and> (\<forall>k\<in>set bs'. GetStripe hash lm1 k = s')"
    if "(s', bs') \<in> set buckets" for s' bs'
    unfolding g len using that by (intro Cons.prems(3)) simp
  obtain lm' where lm': "unlock_stripes mx txn lm1 buckets = Some lm'" "lm_ok hash lm'" "num_stripes lm' = num_stripes lm1"
    "lock_at hash lm' = (\<lambda>k. if in_buckets buckets (GetStripe hash lm k) k then release_opt txn (lock_at hash lm1 k)
                            else lock_at hash lm1 k)"
    using Cons.IH [OF u(1) \<open>alist_ok buckets\<close> pre] unfolding g by blast
  have "unlock_stripes mx txn lm (p # buckets) = Some lm'" using b(1) lm'(1) by (simp add: p lm1_def)
  moreover have "lock_at hash lm' = (\<lambda>k. if in_buckets (p # buckets) (GetStripe hash lm k) k
      then release_opt txn (lock_at hash lm k) else lock_at hash lm k)"
  proof
    fix k
    have "in_buckets (p # buckets) (GetStripe hash lm k) k \<longleftrightarrow> k \<in> set bs \<or> in_buckets buckets (GetStripe hash lm k) k"
      "k \<in> set bs \<Longrightarrow> \<not> in_buckets buckets (GetStripe hash lm k) k"
      using b(3) [of k] fresh by (auto simp: p in_buckets_def)
    then show "lock_at hash lm' k = (if in_buckets (p # buckets) (GetStripe hash lm k) k
      then release_opt txn (lock_at hash lm k) else lock_at hash lm k)"
      by (simp add: lm'(4) u(3))
  qed
  ultimately show ?case using lm'(2,3) u(2) by (intro exI [of _ lm']) simp
qed (simp add: in_buckets_def)

lemma unlock_cf_at:
  assumes "lm_ok hash lm" "distinct ks"
  shows "\<exists>lm'. unlock_stripes mx txn lm (keys_by_stripe hash lm [] ks) = Some lm' \<and> lm_ok hash lm' \<and>
    lock_at hash lm' = (\<lambda>k. if k \<in> set ks then release_opt txn (lock_at hash lm k) else lock_at hash lm k)"
proof -
  let ?b = "keys_by_stripe hash lm [] ks"
  have ok: "alist_ok ?b" by (rule keys_by_stripe_ok) simp
  have at: "map_of ?b s = (let l = filter (\<lambda>k. GetStripe hash lm k = s) ks in if l = [] then None else Some l)" for s
    by (simp add: keys_by_stripe_at add_bucket_def Let_def)
  have "s < length (lock_map_stripes lm) \<and> distinct bs \<and> (\<forall>k\<in>set bs. GetStripe hash lm k = s)"
    if "(s, bs) \<in> set ?b" for s bs
  proof -
    have "map_of ?b s = Some bs" using that ok by (simp add: map_of_is_SomeI)
    then have bs: "bs = filter (\<lambda>k. GetStripe hash lm k = s) ks" "bs \<noteq> []" by (auto simp: at Let_def split: if_splits)
    then obtain k where "k \<in> set ks" "GetStripe hash lm k = s" by (auto simp: filter_empty_conv)
    with GetStripe_less [OF assms(1), of k] bs assms(2) show ?thesis by auto
  qed
  from unlock_stripes_at [OF assms(1) ok this, of mx txn]
  obtain lm' where lm': "unlock_stripes mx txn lm ?b = Some lm'" "lm_ok hash lm'"
    "lock_at hash lm' = (\<lambda>k. if in_buckets ?b (GetStripe hash lm k) k then release_opt txn (lock_at hash lm k)
                            else lock_at hash lm k)" by blast
  moreover have "in_buckets ?b (GetStripe hash lm k) k \<longleftrightarrow> k \<in> set ks" for k
    by (auto simp: in_buckets_def at Let_def filter_empty_conv)
  ultimately show ?thesis by auto
qed

end
