(* ===== verification/Lock_Wait.thy ===== *)
theory Lock_Wait
  imports Point_Lock_Manager
begin

text \<open>
  \<^verbatim>\<open>TryLock\<close> and \<^verbatim>\<open>AcquireWithTimeout\<close> of \<^verbatim>\<open>lock/point/point_lock_manager.cc\<close>: asking for a lock and waiting
  for it. While a thread waits on the condition variable it gives up the stripe mutex and other threads
  run. One wait is a record \<open>wake\<close>: the time read before it, whether the wait timed out,
  what the other threads did meanwhile (any function on the world), and the times the retry reads. A
  call takes the list of its wakes and answers \<open>Still_waiting\<close> if they do not suffice, so that a
  statement that the call returns says for which lists it does.

  The fields of the transaction the lock manager reads and writes are the record \<open>LockTxn\<close>
  (\<^verbatim>\<open>pessimistic_transaction.h\<close>).
\<close>

section \<open>The transaction as the lock manager sees it\<close>

record LockTxn =
  txn_id :: TransactionID
  lt_expiration_time :: u64
  lock_timeout :: int
  deadlock_detect :: bool
  deadlock_detect_depth :: int
  waiting_txn_ids :: "TransactionID list"
  waiting_cf_id :: u32
  waiting_key :: "string option"

definition SetWaitingTxn :: "LockTxn \<Rightarrow> TransactionID list \<Rightarrow> u32 \<Rightarrow> string \<Rightarrow> LockTxn" where
  "SetWaitingTxn t ids cf key = t\<lparr>waiting_txn_ids := ids, waiting_cf_id := cf, waiting_key := Some key\<rparr>"

definition ClearWaitingTxn :: "LockTxn \<Rightarrow> LockTxn" where
  "ClearWaitingTxn t = t\<lparr>waiting_txn_ids := [], waiting_cf_id := 0, waiting_key := None\<rparr>"

definition GetWaitingTxns :: "LockTxn \<Rightarrow> TransactionID list \<times> u32 \<times> string" where
  "GetWaitingTxns t = (waiting_txn_ids t, waiting_cf_id t, case waiting_key t of None \<Rightarrow> '''' | Some k \<Rightarrow> k)"

definition SetLockTimeout :: "LockTxn \<Rightarrow> int \<Rightarrow> LockTxn" where
  "SetLockTimeout t timeout = t\<lparr>lock_timeout := timeout * 1000\<rparr>"

section \<open>Mutex and condition variable\<close>

text \<open>
  The default implementations (\<^verbatim>\<open>transaction_db_mutex_impl.cc\<close>): what \<^verbatim>\<open>std::mutex::try_lock\<close> and
  \<^verbatim>\<open>std::condition_variable::wait_for\<close> answer is the argument.
\<close>

definition Mutex_Lock :: Status where
  "Mutex_Lock = OK"

definition Mutex_TryLockFor :: "int \<Rightarrow> bool \<Rightarrow> Status" where
  "Mutex_TryLockFor timeout_time try_lock =
     (let locked = (if timeout_time = 0 then try_lock else True)
      in if \<not> locked then TimedOut kMutexTimeout else OK)"

definition CondVar_Wait :: Status where
  "CondVar_Wait = OK"

definition CondVar_WaitFor :: "int \<Rightarrow> bool \<Rightarrow> Status" where
  "CondVar_WaitFor timeout_time cv_timeout =
     (if timeout_time < 0 then OK else if cv_timeout then TimedOut kMutexTimeout else OK)"

section \<open>Waiting\<close>

record 'x lock_world =
  lw_plm :: PointLockManager
  lw_txn :: LockTxn
  lw_db :: 'x

record 'x wake =
  wk_now :: u64
  wk_cur_time :: "int option"
  wk_timeout :: bool
  wk_others :: "'x lock_world \<Rightarrow> 'x lock_world"
  wk_retry_now :: u64

text \<open>\<open>AcquireLocked\<close> on the lock map at address \<open>a\<close>.\<close>

definition acquire_at ::
  "(TransactionID \<Rightarrow> 'x \<Rightarrow> bool \<times> 'x) \<Rightarrow> nat \<Rightarrow> nat \<Rightarrow> string \<Rightarrow> u64 \<Rightarrow> LockInfo \<Rightarrow> u64 \<Rightarrow> TransactionID list \<Rightarrow>
   'x lock_world \<Rightarrow> Status \<times> u64 \<times> TransactionID list \<times> 'x lock_world" where
  "acquire_at steal a i key now info expire_time_hint wait_ids w =
     (case AcquireLocked steal (max_num_locks (lw_plm w)) (lock_map_heap (lw_plm w) ! a) i key now info
             expire_time_hint wait_ids (lw_db w) of
        (s, lm, hint, ids, x) \<Rightarrow>
          (s, hint, ids,
           w\<lparr>lw_plm := (lw_plm w)\<lparr>lock_map_heap := (lock_map_heap (lw_plm w))[a := lm]\<rparr>, lw_db := x\<rparr>))"

definition cv_end_time :: "u64 \<Rightarrow> u64 \<Rightarrow> int" where
  "cv_end_time expire_time_hint end_time =
     (if expire_time_hint > 0 \<and> end_time > 0 then sint (min expire_time_hint end_time)
      else if expire_time_hint > 0 then sint expire_time_hint
      else if end_time > 0 then sint end_time
      else - 1)"

text \<open>Before the wait: \<^const>\<open>None\<close> if undefined, else whether there is a deadlock, and the world.\<close>

definition announce_wait ::
  "ColumnFamilyId \<Rightarrow> string \<Rightarrow> bool \<Rightarrow> 'x wake \<Rightarrow> TransactionID list \<Rightarrow> 'x lock_world \<Rightarrow> (bool \<times> 'x lock_world) option" where
  "announce_wait cf key excl k wait_ids w =
     (if wait_ids = [] then Some (False, w)
      else
        let set_waiting = (\<lambda>w. w\<lparr>lw_txn := SetWaitingTxn (lw_txn w) wait_ids cf key\<rparr>)
        in if deadlock_detect (lw_txn w)
           then map_option (\<lambda>(found, ws).
                    let w = w\<lparr>lw_plm := (lw_plm w)\<lparr>wait_maps := ws\<rparr>\<rparr>
                    in if found then (True, w) else (False, set_waiting w))
                  (IncrementWaiters (wait_maps (lw_plm w)) (txn_id (lw_txn w)) (deadlock_detect_depth (lw_txn w))
                     wait_ids key cf excl (wk_cur_time k))
           else Some (False, set_waiting w))"

definition do_wait :: "int \<Rightarrow> 'x wake \<Rightarrow> Status \<Rightarrow> 'x lock_world \<Rightarrow> Status \<times> 'x lock_world" where
  "do_wait cv_end k result w =
     (if cv_end < 0 then (CondVar_Wait, wk_others k w)
      else if (of_int cv_end :: u64) > wk_now k
      then (CondVar_WaitFor (sint (of_int cv_end - wk_now k)) (wk_timeout k), wk_others k w)
      else (result, w))"

definition withdraw_wait :: "TransactionID list \<Rightarrow> 'x lock_world \<Rightarrow> 'x lock_world option" where
  "withdraw_wait wait_ids w =
     (if wait_ids = [] then Some w
      else
        let w = w\<lparr>lw_txn := ClearWaitingTxn (lw_txn w)\<rparr>
        in if deadlock_detect (lw_txn w)
           then map_option (\<lambda>ws. w\<lparr>lw_plm := (lw_plm w)\<lparr>wait_maps := ws\<rparr>\<rparr>)
                  (DecrementWaiters (wait_maps (lw_plm w)) (txn_id (lw_txn w)) wait_ids)
           else Some w)"

fun wait_loop ::
  "(TransactionID \<Rightarrow> 'x \<Rightarrow> bool \<times> 'x) \<Rightarrow> nat \<Rightarrow> nat \<Rightarrow> ColumnFamilyId \<Rightarrow> string \<Rightarrow> u64 \<Rightarrow> LockInfo \<Rightarrow>
   Status \<Rightarrow> u64 \<Rightarrow> TransactionID list \<Rightarrow> 'x lock_world \<Rightarrow> 'x wake list \<Rightarrow> (Status \<times> 'x lock_world) outcome" where
  "wait_loop steal a i cf key end_time info result hint wait_ids w [] = Still_waiting"
| "wait_loop steal a i cf key end_time info result hint wait_ids w (k # ks) =
     (case announce_wait cf key (exclusive info) k wait_ids w of
        None \<Rightarrow> Undefined
      | Some (True, w) \<Rightarrow> Returned (Busy kDeadlock, w)
      | Some (False, w) \<Rightarrow>
          (case do_wait (cv_end_time hint end_time) k result w of
             (result, w) \<Rightarrow>
               (case withdraw_wait wait_ids w of
                  None \<Rightarrow> Undefined
                | Some w \<Rightarrow>
                    let timed_out = IsTimedOut result;
                        (result, hint, wait_ids, w) =
                          (if ok result \<or> IsTimedOut result
                           then acquire_at steal a i key (wk_retry_now k) info hint wait_ids w
                           else (result, hint, wait_ids, w))
                    in if \<not> ok result \<and> \<not> timed_out
                       then wait_loop steal a i cf key end_time info result hint wait_ids w ks
                       else Returned (result, w))))"

definition AcquireWithTimeout ::
  "(TransactionID \<Rightarrow> 'x \<Rightarrow> bool \<times> 'x) \<Rightarrow> nat \<Rightarrow> nat \<Rightarrow> ColumnFamilyId \<Rightarrow> string \<Rightarrow> int \<Rightarrow> LockInfo \<Rightarrow>
   u64 \<Rightarrow> bool \<Rightarrow> u64 \<Rightarrow> 'x wake list \<Rightarrow> 'x lock_world \<Rightarrow> (Status \<times> 'x lock_world) outcome" where
  "AcquireWithTimeout steal a i cf key timeout info start_time try_lock now wakes w =
     (let end_time = (if timeout > 0 then start_time + of_int timeout else 0);
          mutex_status = (if timeout < 0 then Mutex_Lock else Mutex_TryLockFor timeout try_lock)
      in if \<not> ok mutex_status then Returned (mutex_status, w)
         else case acquire_at steal a i key now info 0 [] w of
                (result, hint, wait_ids, w) \<Rightarrow>
                  if \<not> ok result \<and> timeout \<noteq> 0
                  then wait_loop steal a i cf key end_time info result hint wait_ids w wakes
                  else Returned (result, w))"

definition PLM_TryLock ::
  "(string \<Rightarrow> u64) \<Rightarrow> (TransactionID \<Rightarrow> 'x \<Rightarrow> bool \<times> 'x) \<Rightarrow> nat \<Rightarrow> ColumnFamilyId \<Rightarrow> string \<Rightarrow> bool \<Rightarrow>
   u64 \<Rightarrow> bool \<Rightarrow> u64 \<Rightarrow> 'x wake list \<Rightarrow> 'x lock_world \<Rightarrow> (Status \<times> 'x lock_world) outcome" where
  "PLM_TryLock hash steal thread cf key excl start_time try_lock now wakes w =
     (case GetLockMap thread (lw_plm w) cf of
        (None, m) \<Rightarrow>
          Returned (InvalidArgument_msg (''Column family id not found: '' @ decimal (unat cf)) '''', w\<lparr>lw_plm := m\<rparr>)
      | (Some a, m) \<Rightarrow>
          let lock_map = lock_map_heap m ! a;
              stripe_num = GetStripe hash lock_map key
          in if stripe_num \<ge> length (lock_map_stripes lock_map) then Undefined
             else AcquireWithTimeout steal a stripe_num cf key (lock_timeout (lw_txn w))
                    (LockInfo_new (txn_id (lw_txn w)) (lt_expiration_time (lw_txn w)) excl)
                    start_time try_lock now wakes (w\<lparr>lw_plm := m\<rparr>))"

section \<open>What a wait preserves\<close>

definition world_ok :: "(string \<Rightarrow> u64) \<Rightarrow> nat \<Rightarrow> u64 \<Rightarrow> 'x lock_world \<Rightarrow> bool" where
  "world_ok hash a n w \<longleftrightarrow> a < length (lock_map_heap (lw_plm w)) \<and>
     lm_ok hash (lock_map_heap (lw_plm w) ! a) \<and> num_stripes (lock_map_heap (lw_plm w) ! a) = n"

text \<open>
  What is assumed of the other threads: they keep the lock map well formed, with its stripes, and
  leave this transaction and the limit alone.
\<close>

definition polite :: "(string \<Rightarrow> u64) \<Rightarrow> nat \<Rightarrow> u64 \<Rightarrow> 'x wake \<Rightarrow> bool" where
  "polite hash a n k \<longleftrightarrow>
     (\<forall>w. world_ok hash a n w \<longrightarrow> world_ok hash a n (wk_others k w)) \<and>
     (\<forall>w. lw_txn (wk_others k w) = lw_txn w \<and>
          max_num_locks (lw_plm (wk_others k w)) = max_num_locks (lw_plm w))"

definition granted :: "(string \<Rightarrow> u64) \<Rightarrow> nat \<Rightarrow> string \<Rightarrow> LockInfo \<Rightarrow> 'x lock_world \<Rightarrow> bool" where
  "granted hash a key info w \<longleftrightarrow>
     (\<exists>li. lock_at hash (lock_map_heap (lw_plm w) ! a) key = Some li \<and> txn_ids info ! 0 \<in> set (txn_ids li) \<and>
        (exclusive info \<longrightarrow> exclusive li \<and> txn_ids li = txn_ids info))"

definition stripe_of :: "(string \<Rightarrow> u64) \<Rightarrow> u64 \<Rightarrow> string \<Rightarrow> nat" where
  "stripe_of hash n key = unat (FastRange64 (hash key) n)"

lemma stripe_of_GetStripe: "world_ok hash a n w \<Longrightarrow> GetStripe hash (lock_map_heap (lw_plm w) ! a) key = stripe_of hash n key"
  by (simp add: world_ok_def stripe_of_def GetStripe_def)

lemma acquire_at_ok:
  assumes w: "world_ok hash a n w" and single: "single info"
    and acq: "acquire_at steal a (stripe_of hash n key) key now info hint ids w = (s, hint', ids', w')"
  shows "world_ok hash a n w'" and "ok s \<Longrightarrow> granted hash a key info w'"
    and "lw_txn w' = lw_txn w" and "max_num_locks (lw_plm w') = max_num_locks (lw_plm w)"
    and "wait_maps (lw_plm w') = wait_maps (lw_plm w)"
    and "\<not> ok s \<Longrightarrow> s = TimedOut kLockTimeout \<or> s = Busy kLockLimit \<and> 0 < max_num_locks (lw_plm w)"
proof -
  let ?lm = "lock_map_heap (lw_plm w) ! a" and ?mx = "max_num_locks (lw_plm w)"
  have ok: "lm_ok hash ?lm" and a: "a < length (lock_map_heap (lw_plm w))" and n: "num_stripes ?lm = n"
    using w by (simp_all add: world_ok_def)
  obtain lm x where al: "AcquireLocked steal ?mx ?lm (GetStripe hash ?lm key) key now info hint ids (lw_db w) =
      (s, lm, hint', ids', x)"
    and w': "w' = w\<lparr>lw_plm := (lw_plm w)\<lparr>lock_map_heap := (lock_map_heap (lw_plm w))[a := lm]\<rparr>, lw_db := x\<rparr>"
    using acq stripe_of_GetStripe [OF w, of key]
    by (auto simp: acquire_at_def split: prod.splits)
  note t = AcquireLocked_table [OF ok single al]
  show "world_ok hash a n w'" using t(2,3) a n by (simp add: world_ok_def w')
  show "lw_txn w' = lw_txn w" "max_num_locks (lw_plm w') = ?mx" "wait_maps (lw_plm w') = wait_maps (lw_plm w)"
    by (simp_all add: w')
  note c = table_acquire_cases [OF t(1) [unfolded table_of_def] single]
  show "ok s \<Longrightarrow> granted hash a key info w'" using c a by (auto simp: granted_def w')
  have "ok OK" by (simp add: status_simps)
  then show "\<not> ok s \<Longrightarrow> s = TimedOut kLockTimeout \<or> s = Busy kLockLimit \<and> 0 < ?mx" using c by auto
qed

lemma announce_wait_frame:
  assumes "announce_wait cf key excl k ids w = Some (b, w')"
  shows "lock_map_heap (lw_plm w') = lock_map_heap (lw_plm w)" "max_num_locks (lw_plm w') = max_num_locks (lw_plm w)"
    "txn_id (lw_txn w') = txn_id (lw_txn w)" "deadlock_detect (lw_txn w') = deadlock_detect (lw_txn w)"
  using assms by (auto simp: announce_wait_def Let_def SetWaitingTxn_def split: if_splits)

lemma withdraw_wait_frame:
  assumes "withdraw_wait ids w = Some w'"
  shows "lock_map_heap (lw_plm w') = lock_map_heap (lw_plm w)" "max_num_locks (lw_plm w') = max_num_locks (lw_plm w)"
    "deadlock_detect (lw_txn w') = deadlock_detect (lw_txn w)"
  using assms by (auto simp: withdraw_wait_def Let_def ClearWaitingTxn_def split: if_splits)

lemma world_ok_frame: "lock_map_heap (lw_plm w') = lock_map_heap (lw_plm w) \<Longrightarrow> world_ok hash a n w' = world_ok hash a n w"
  by (simp add: world_ok_def)

lemma do_wait_ok:
  assumes "polite hash a n k" "world_ok hash a n w" "do_wait cv k r w = (r', w')"
  shows "world_ok hash a n w'" "lw_txn w' = lw_txn w" "max_num_locks (lw_plm w') = max_num_locks (lw_plm w)"
    "r' = OK \<or> r' = TimedOut kMutexTimeout \<or> r' = r"
  using assms by (auto simp: do_wait_def polite_def CondVar_Wait_def CondVar_WaitFor_def split: if_splits)

lemma wait_loop_step:
  assumes an: "announce_wait cf key (exclusive info) k ids w = Some (False, w1)"
    and dw: "do_wait (cv_end_time hint end_time) k result w1 = (r2, w2)"
    and wd: "withdraw_wait ids w2 = Some w3"
  shows "wait_loop steal a i cf key end_time info result hint ids w (k # ks) =
    (case (if ok r2 \<or> IsTimedOut r2 then acquire_at steal a i key (wk_retry_now k) info hint ids w3
           else (r2, hint, ids, w3)) of
       (r4, hint4, ids4, w4) \<Rightarrow>
         if \<not> ok r4 \<and> \<not> IsTimedOut r2 then wait_loop steal a i cf key end_time info r4 hint4 ids4 w4 ks
         else Returned (r4, w4))"
  using an dw wd by (simp add: Let_def)

lemma wait_loop_granted:
  assumes "list_all (polite hash a n) ks" "world_ok hash a n w" "single info" "\<not> ok result"
    and "wait_loop steal a (stripe_of hash n key) cf key end_time info result hint ids w ks = Returned (s, w')"
    and "ok s"
  shows "granted hash a key info w'"
  using assms(1,2,4-6)
proof (induction ks arbitrary: result hint ids w)
  case (Cons k ks)
  note single = assms(3)
  show ?case
  proof (cases "announce_wait cf key (exclusive info) k ids w")
    case (Some p)
    then obtain b w1 where an: "announce_wait cf key (exclusive info) k ids w = Some (b, w1)" by (cases p) auto
    have "\<not> b"
    proof
      assume b
      with an Cons.prems(4) have "s = Busy kDeadlock" by simp
      with Cons.prems(5) show False by (simp add: status_simps)
    qed
    with an have an: "announce_wait cf key (exclusive info) k ids w = Some (False, w1)" by simp
    obtain r2 w2 where dw: "do_wait (cv_end_time hint end_time) k result w1 = (r2, w2)" by force
    have w1: "world_ok hash a n w1" using world_ok_frame [OF announce_wait_frame(1) [OF an]] Cons.prems(2) by simp
    have k: "polite hash a n k" "list_all (polite hash a n) ks" using Cons.prems(1) by simp_all
    note w2 = do_wait_ok [OF k(1) w1 dw]
    show ?thesis
    proof (cases "withdraw_wait ids w2")
      case None
      with an dw Cons.prems(4) show ?thesis by simp
    next
      case wd: (Some w3)
      have w3: "world_ok hash a n w3" using world_ok_frame [OF withdraw_wait_frame(1) [OF wd]] w2(1) by simp
      note step = wait_loop_step [OF an dw wd, of steal a "stripe_of hash n key" ks]
      show ?thesis
      proof (cases "ok r2 \<or> IsTimedOut r2")
        case True
        obtain r4 h4 i4 w4 where acq: "acquire_at steal a (stripe_of hash n key) key (wk_retry_now k) info hint ids w3 =
            (r4, h4, i4, w4)" by (metis prod_cases4)
        note a = acquire_at_ok [OF w3 single acq]
        show ?thesis
        proof (cases "\<not> ok r4 \<and> \<not> IsTimedOut r2")
          case loop: True
          with step True acq Cons.prems(4) show ?thesis by (intro Cons.IH [OF k(2) a(1) _ _ Cons.prems(5)]) auto
        next
          case False
          with step True acq Cons.prems(4) have "r4 = s" "w4 = w'" by (auto split: if_splits)
          with a(2) Cons.prems(5) show ?thesis by simp
        qed
      next
        case False
        with step Cons.prems(4) show ?thesis by (intro Cons.IH [OF k(2) w3 _ _ Cons.prems(5)]) auto
      qed
    qed
  qed (use Cons.prems(4) in simp)
qed simp

lemma sint_small: "x < 2 ^ 63 \<Longrightarrow> sint (x :: u64) = uint x"
proof -
  assume "x < 2 ^ 63"
  then have "uint x < 2 ^ 63" by (simp add: word_less_def)
  moreover have "- (2 ^ 63) \<le> uint x" by (rule order_trans [OF _ unsigned_greater_eq]) simp
  ultimately have "signed_take_bit 63 (uint x) = uint x" by (intro signed_take_bit_int_eq_self)
  then show ?thesis by (simp add: sint_uint)
qed

text \<open>With a deadline before \<open>2 ^ 63\<close> a wait is never indefinite, and one that times out is the last.\<close>

lemma do_wait_timeout:
  assumes e: "0 < end_time" "end_time < 2 ^ 63" and k: "wk_timeout k" and r: "IsTimedOut r"
  shows "IsTimedOut (fst (do_wait (cv_end_time hint end_time) k r w))"
proof -
  define c where "c = (if hint > 0 then min hint end_time else end_time)"
  have "c \<le> end_time" by (simp add: c_def)
  then have c: "c < 2 ^ 63" using e(2) by simp
  have cv: "cv_end_time hint end_time = uint c"
    using sint_small [OF c] e(1) by (cases "0 < hint") (simp_all add: cv_end_time_def c_def)
  show ?thesis
  proof (cases "c > wk_now k")
    case True
    then have "c - wk_now k \<le> c" by (simp add: word_sub_le)
    then have "c - wk_now k < 2 ^ 63" using c by simp
    then have "\<not> sint (c - wk_now k) < 0" using sint_small [of "c - wk_now k"] by simp
    with True k show ?thesis by (simp add: do_wait_def cv CondVar_WaitFor_def status_simps)
  next
    case False
    with r show ?thesis by (simp add: do_wait_def cv)
  qed
qed

lemma wait_loop_returns:
  assumes "list_all (polite hash a n) ks" "\<exists>k\<in>set ks. wk_timeout k"
    and e: "0 < end_time" "end_time < 2 ^ 63"
    and "world_ok hash a n w" "single info" "result = TimedOut kLockTimeout"
    and "\<not> deadlock_detect (lw_txn w)" "max_num_locks (lw_plm w) \<le> 0"
  shows "\<exists>s w'. wait_loop steal a (stripe_of hash n key) cf key end_time info result hint ids w ks = Returned (s, w')"
  using assms(1,2,5,7-9)
proof (induction ks arbitrary: result hint ids w)
  case (Cons k ks)
  note single = assms(6)
  have st: "IsTimedOut (TimedOut c)" "\<not> ok (TimedOut c)" "ok OK" "\<not> IsTimedOut OK" for c by (simp_all add: status_simps)
  obtain w1 where an: "announce_wait cf key (exclusive info) k ids w = Some (False, w1)"
    using Cons.prems(5) by (cases "ids = []") (auto simp: announce_wait_def Let_def)
  note f1 = announce_wait_frame [OF an]
  obtain r2 w2 where dw: "do_wait (cv_end_time hint end_time) k result w1 = (r2, w2)" by force
  have w1: "world_ok hash a n w1" using world_ok_frame [OF f1(1)] Cons.prems(3) by simp
  have k: "polite hash a n k" "list_all (polite hash a n) ks" using Cons.prems(1) by simp_all
  note w2 = do_wait_ok [OF k(1) w1 dw]
  obtain w3 where wd: "withdraw_wait ids w2 = Some w3"
    using Cons.prems(5) f1(4) w2(2)
    by (cases "ids = []") (auto simp: withdraw_wait_def Let_def ClearWaitingTxn_def)
  note f3 = withdraw_wait_frame [OF wd]
  have w3: "world_ok hash a n w3" using world_ok_frame [OF f3(1)] w2(1) by simp
  have r2: "ok r2 \<or> IsTimedOut r2" using w2(4) Cons.prems(4) st by auto
  obtain r4 h4 i4 w4 where acq: "acquire_at steal a (stripe_of hash n key) key (wk_retry_now k) info hint ids w3 =
      (r4, h4, i4, w4)" by (metis prod_cases4)
  note a = acquire_at_ok [OF w3 single acq]
  have mx: "max_num_locks (lw_plm w3) \<le> 0" using Cons.prems(6) f1(2) w2(3) f3(2) by simp
  note step = wait_loop_step [OF an dw wd, of steal a "stripe_of hash n key" ks]
  show ?case
  proof (cases "\<not> ok r4 \<and> \<not> IsTimedOut r2")
    case True
    then have r4: "r4 = TimedOut kLockTimeout" using a(6) mx by auto
    have "\<not> wk_timeout k"
      using True do_wait_timeout [OF e, of k result hint w1] dw Cons.prems(4) st(1) by auto
    then have more: "\<exists>k\<in>set ks. wk_timeout k" using Cons.prems(2) by simp
    have "\<not> deadlock_detect (lw_txn w4)" "max_num_locks (lw_plm w4) \<le> 0"
      using Cons.prems(5) f1(4) w2(2) f3(3) a(3,4) mx by simp_all
    then obtain s w' where
      "wait_loop steal a (stripe_of hash n key) cf key end_time info r4 h4 i4 w4 ks = Returned (s, w')"
      using Cons.IH [OF k(2) more a(1) r4] by blast
    with step True acq r2 show ?thesis by simp
  next
    case False
    with step acq r2 show ?thesis by auto
  qed
qed simp

section \<open>Properties\<close>

lemma PLM_TryLock_eq:
  assumes "plm_ok hash (lw_plm w)" "map_of (lock_maps (lw_plm w)) cf = Some a"
  shows "\<exists>m. PLM_TryLock hash steal thread cf key excl start_time try_lock now wakes w =
      AcquireWithTimeout steal a (stripe_of hash (num_stripes (lock_map_heap (lw_plm w) ! a)) key) cf key
        (lock_timeout (lw_txn w)) (LockInfo_new (txn_id (lw_txn w)) (lt_expiration_time (lw_txn w)) excl)
        start_time try_lock now wakes (w\<lparr>lw_plm := m\<rparr>) \<and>
    world_ok hash a (num_stripes (lock_map_heap (lw_plm w) ! a)) (w\<lparr>lw_plm := m\<rparr>) \<and>
    lock_map_heap m = lock_map_heap (lw_plm w) \<and> max_num_locks m = max_num_locks (lw_plm w)"
proof -
  obtain m where m: "GetLockMap thread (lw_plm w) cf = (Some a, m)" "plm_ok hash m"
    "lock_map_heap m = lock_map_heap (lw_plm w)" "max_num_locks m = max_num_locks (lw_plm w)"
    using GetLockMap_ok [OF assms(1), of thread cf] assms(2) by auto
  have a: "a < length (lock_map_heap m)" "lm_ok hash (lock_map_heap m ! a)"
    using assms m(3) unfolding plm_ok_def by auto
  note less = GetStripe_less [OF a(2), of key]
  then show ?thesis
    using m a by (intro exI [of _ m])
      (simp add: PLM_TryLock_def Let_def not_le [symmetric] stripe_of_def GetStripe_def world_ok_def)
qed

text \<open>
  C10: A granted lock is held. When \<open>TryLock\<close> returns success, however often it waited and whatever
  other threads did meanwhile, the transaction is among the holders of the key, and if it asked for
  exclusive mode it is the only one.
\<close>

theorem TryLock_grant_sound:
  assumes "plm_ok hash (lw_plm w)" "map_of (lock_maps (lw_plm w)) cf = Some a"
    and "list_all (polite hash a (num_stripes (lock_map_heap (lw_plm w) ! a))) wakes"
    and "PLM_TryLock hash steal thread cf key excl start_time try_lock now wakes w = Returned (s, w')" "ok s"
  shows "\<exists>li. lock_at hash (lock_map_heap (lw_plm w') ! a) key = Some li \<and> txn_id (lw_txn w) \<in> set (txn_ids li) \<and>
    (excl \<longrightarrow> exclusive li \<and> txn_ids li = [txn_id (lw_txn w)])"
proof -
  let ?n = "num_stripes (lock_map_heap (lw_plm w) ! a)"
  let ?info = "LockInfo_new (txn_id (lw_txn w)) (lt_expiration_time (lw_txn w)) excl"
  obtain m where eq: "AcquireWithTimeout steal a (stripe_of hash ?n key) cf key (lock_timeout (lw_txn w)) ?info
      start_time try_lock now wakes (w\<lparr>lw_plm := m\<rparr>) = Returned (s, w')"
    and wm: "world_ok hash a ?n (w\<lparr>lw_plm := m\<rparr>)"
    using PLM_TryLock_eq [OF assms(1,2)] assms(4) by metis
  obtain r h ids w1 where acq: "acquire_at steal a (stripe_of hash ?n key) key now ?info 0 [] (w\<lparr>lw_plm := m\<rparr>) = (r, h, ids, w1)"
    by (metis prod_cases4)
  note a = acquire_at_ok [OF wm single_new acq]
  have "granted hash a key ?info w'"
  proof (cases "\<not> ok r \<and> lock_timeout (lw_txn w) \<noteq> 0")
    case True
    with eq acq assms(5) show ?thesis
      by (auto simp: AcquireWithTimeout_def Let_def split: if_splits
          intro!: wait_loop_granted [OF assms(3) a(1) single_new _ _ assms(5)])
  next
    case False
    with eq acq assms(5) a(2) show ?thesis by (auto simp: AcquireWithTimeout_def Let_def split: if_splits)
  qed
  then show ?thesis by (auto simp: granted_def LockInfo_new_def)
qed

abbreviation demo_txn :: LockTxn where
  "demo_txn \<equiv> \<lparr>txn_id = 1, lt_expiration_time = 0, lock_timeout = 1000, deadlock_detect = False,
     deadlock_detect_depth = 50, waiting_txn_ids = [], waiting_cf_id = 0, waiting_key = None\<rparr>"

abbreviation demo_world :: "unit lock_world" where
  "demo_world \<equiv> \<lparr>lw_plm = AddColumnFamily (PointLockManager_new 4 0 5) 3, lw_txn = demo_txn, lw_db = ()\<rparr>"

lemma demo_world_ok:
  "plm_ok (\<lambda>_. 7) (lw_plm demo_world)" "map_of (lock_maps (lw_plm demo_world)) 3 = Some 0"
  using plm_ok_Add [OF plm_ok_new [of 4 "\<lambda>_. 7" 0 5], of 3]
  by (simp_all add: AddColumnFamily_def PointLockManager_new_def)

theorem TryLock_grant_sound_witness:
  "\<exists>s w' li. PLM_TryLock (\<lambda>_. 7) (\<lambda>_ x. (True, x)) 0 3 ''k'' True 10 True 10 [] demo_world = Returned (s, w') \<and> ok s \<and>
    lock_at (\<lambda>_. 7) (lock_map_heap (lw_plm w') ! 0) ''k'' = Some li \<and> txn_ids li = [1]"
proof -
  have "case PLM_TryLock (\<lambda>_. 7) (\<lambda>_ x. (True, x)) 0 3 ''k'' True 10 True 10 [] demo_world of
      Returned (s, w') \<Rightarrow> ok s | _ \<Rightarrow> False"
    by code_simp
  then obtain s w' where r: "PLM_TryLock (\<lambda>_. 7) (\<lambda>_ x. (True, x)) 0 3 ''k'' True 10 True 10 [] demo_world = Returned (s, w')" "ok s"
    by (auto split: outcome.splits prod.splits)
  from TryLock_grant_sound [OF demo_world_ok _ r] r show ?thesis by auto
qed



text \<open>
  C19: A request that meets the lock limit never returns. If the limit on the number of locks is
  reached, the key is free and the deadline has passed, the loop neither waits nor retries: it goes
  round for ever with the stripe mutex held, whatever the other threads do.
\<close>

theorem lock_limit_spins:
  assumes "plm_ok hash (lw_plm w)" "map_of (lock_maps (lw_plm w)) cf = Some a"
    and "lock_at hash (lock_map_heap (lw_plm w) ! a) key = None"
    and "0 < max_num_locks (lw_plm w)" "max_num_locks (lw_plm w) \<le> lock_cnt (lock_map_heap (lw_plm w) ! a)"
    and "0 < lock_timeout (lw_txn w)" "0 < start_time + of_int (lock_timeout (lw_txn w))"
      "start_time + of_int (lock_timeout (lw_txn w)) < 2 ^ 63"
    and "\<forall>k\<in>set wakes. start_time + of_int (lock_timeout (lw_txn w)) \<le> wk_now k"
  shows "PLM_TryLock hash steal thread cf key excl start_time try_lock now wakes w = Still_waiting"
proof -
  let ?n = "num_stripes (lock_map_heap (lw_plm w) ! a)"
  let ?info = "LockInfo_new (txn_id (lw_txn w)) (lt_expiration_time (lw_txn w)) excl"
  define e where "e = start_time + of_int (lock_timeout (lw_txn w))"
  have e: "0 < e" "e < 2 ^ 63" using assms(7,8) by (simp_all add: e_def)
  obtain m where eq: "PLM_TryLock hash steal thread cf key excl start_time try_lock now wakes w =
      AcquireWithTimeout steal a (stripe_of hash ?n key) cf key (lock_timeout (lw_txn w)) ?info
      start_time try_lock now wakes (w\<lparr>lw_plm := m\<rparr>)"
    and wm: "world_ok hash a ?n (w\<lparr>lw_plm := m\<rparr>)" and mx: "max_num_locks m = max_num_locks (lw_plm w)"
    and hp: "lock_map_heap m = lock_map_heap (lw_plm w)"
    using PLM_TryLock_eq [OF assms(1,2)] by metis
  have none: "map_of (lock_map_stripes (lock_map_heap m ! a) ! stripe_of hash ?n key) key = None"
    using assms(3) stripe_of_GetStripe [OF wm, of key] hp by (simp add: lock_at_def)
  have acq: "\<exists>w1. acquire_at steal a (stripe_of hash ?n key) key now ?info 0 [] (w\<lparr>lw_plm := m\<rparr>) = (Busy kLockLimit, 0, [], w1)"
    using assms(4,5) mx hp none by (simp add: acquire_at_def AcquireLocked_def)
  have cv: "cv_end_time 0 e = uint e" using e sint_small [OF e(2)] by (simp add: cv_end_time_def)
  have loop: "wait_loop steal a i cf key e info (Busy kLockLimit) 0 [] w1 ks = Still_waiting"
    if "\<forall>k\<in>set ks. e \<le> wk_now k" for i info w1 ks
    using that
    by (induction ks) (auto simp: announce_wait_def do_wait_def withdraw_wait_def cv Let_def status_simps)
  have st: "\<not> ok (Busy kLockLimit)" "ok OK" by (simp_all add: status_simps)
  have "\<not> lock_timeout (lw_txn w) < 0" "lock_timeout (lw_txn w) \<noteq> 0" using assms(6) by simp_all
  then show ?thesis
    using acq loop assms(6,9) st by (auto simp: eq AcquireWithTimeout_def Let_def Mutex_TryLockFor_def e_def)
qed

abbreviation full_lock_map :: LockMap where
  "full_lock_map \<equiv> \<lparr>num_stripes = 1, lock_cnt = 1, lock_map_stripes = [[(''j'', LockInfo_new 2 0 True)]]\<rparr>"

theorem lock_limit_spins_witness:
  "AcquireLocked (\<lambda>_ x. (True, x)) 1 (LockMap_new 1) 0 ''j'' 10 (LockInfo_new 2 0 True) 0 [] () =
     (OK, full_lock_map, 0, [], ()) \<and>
   PLM_TryLock (\<lambda>_. 7) (\<lambda>_ x. (True, x)) 0 3 ''k'' True 10 True 10
    (replicate 5 \<lparr>wk_now = 2000, wk_cur_time = None, wk_timeout = False, wk_others = (\<lambda>w. w), wk_retry_now = 2000\<rparr>)
    \<lparr>lw_plm = (AddColumnFamily (PointLockManager_new 1 1 5) 3)\<lparr>lock_map_heap := [full_lock_map]\<rparr>,
      lw_txn = demo_txn, lw_db = ()\<rparr> = Still_waiting"
proof
  show "AcquireLocked (\<lambda>_ x. (True, x)) 1 (LockMap_new 1) 0 ''j'' 10 (LockInfo_new 2 0 True) 0 [] () =
      (OK, full_lock_map, 0, [], ())" by code_simp
  let ?m = "(AddColumnFamily (PointLockManager_new 1 1 5) 3)\<lparr>lock_map_heap := [full_lock_map]\<rparr>"
  have g: "GetStripe hash full_lock_map key = 0" for hash key
  proof -
    have "FastRange64 (hash key) 1 < 1" by (rule FastRange64_bound) simp
    then have "unat (FastRange64 (hash key) 1) = 0" unfolding word_less_nat_alt by simp
    then show ?thesis by (simp add: GetStripe_def)
  qed
  have lm: "lm_ok (\<lambda>_. 7) full_lock_map" by (simp add: lm_ok_def g) (simp add: info_ok_def LockInfo_new_def)
  let ?n = "AddColumnFamily (PointLockManager_new 1 1 5) 3"
  have n: "plm_ok (\<lambda>_. 7) ?n" by (rule plm_ok_Add [OF plm_ok_new]) simp
  have heap: "map_of (lock_maps ?n) 3 = Some 0" "[full_lock_map] = (lock_map_heap ?n)[0 := full_lock_map]"
    by (simp_all add: AddColumnFamily_def PointLockManager_new_def)
  have ok: "plm_ok (\<lambda>_. 7) ?m" unfolding heap(2) by (rule plm_put_lock_map(1) [OF n heap(1) lm])
  have at: "lock_at (\<lambda>_. 7) full_lock_map ''k'' = None" by (simp add: lock_at_def g)
  show "PLM_TryLock (\<lambda>_. 7) (\<lambda>_ x. (True, x)) 0 3 ''k'' True 10 True 10
    (replicate 5 \<lparr>wk_now = 2000, wk_cur_time = None, wk_timeout = False, wk_others = (\<lambda>w. w), wk_retry_now = 2000\<rparr>)
    \<lparr>lw_plm = ?m, lw_txn = demo_txn, lw_db = ()\<rparr> = Still_waiting"
    by (rule lock_limit_spins [where a = 0])
      (use ok in \<open>simp_all add: at AddColumnFamily_def PointLockManager_new_def\<close>)
qed

end
