(* ===== verification/Pessimistic_Txn.thy ===== *)
theory Pessimistic_Txn
  imports Txn_Base Txn_Util Lock_Wait "HOL-Library.List_Lexorder" "HOL-Library.Char_ord"
begin

text \<open>
  \<^verbatim>\<open>PessimisticTransaction\<close> (\<^verbatim>\<open>utilities/transactions/pessimistic_transaction.{h,cc}\<close>) and the registries of
  \<^verbatim>\<open>PessimisticTransactionDB\<close> it uses: locking and validating keys, the states of a transaction and its
  two-phase commit.

  The world of a transaction is the database, the lock manager, and what other threads can reach: the
  state \<^verbatim>\<open>txn_state_\<close> of every transaction object (by address; \<^const>\<open>None\<close> is a destroyed object), the map of
  expirable transactions, the map of named transactions, the id counter. Every call of the lock manager
  consumes one \<open>lock_call\<close>, the times it reads and the waits it goes through; a transaction whose calls
  are used up is \<^const>\<open>Still_waiting\<close>. Reading the clock is an argument \<open>now\<close>.
\<close>

section \<open>The world\<close>

record 'd txn_db = "'d db_world" +
  txn_states :: "nat \<Rightarrow> TransactionState option"
  expirable_transactions :: "(TransactionID \<times> nat) list"
  transactions :: "(string \<times> nat) list"
  txn_id_counter :: TransactionID
  dangling_access :: bool

record 'x lock_call =
  lc_start_time :: u64
  lc_try_lock :: bool
  lc_now :: u64
  lc_wakes :: "'x wake list"

record 'd pworld = "'d txn_db" +
  pw_plm :: PointLockManager
  pw_calls :: "'d txn_db lock_call list"

record plm_env =
  pe_hash :: "string \<Rightarrow> u64"
  pe_thread :: nat
  pe_options :: TransactionDBOptions

definition take_db :: "'d pworld \<Rightarrow> 'd txn_db" where
  "take_db r = \<lparr>w_db = w_db r, txn_states = txn_states r, expirable_transactions = expirable_transactions r,
     transactions = transactions r, txn_id_counter = txn_id_counter r, dangling_access = dangling_access r\<rparr>"

definition put_db :: "'d txn_db \<Rightarrow> 'd pworld \<Rightarrow> 'd pworld" where
  "put_db x r = r\<lparr>w_db := w_db x, txn_states := txn_states x, expirable_transactions := expirable_transactions x,
     transactions := transactions x, txn_id_counter := txn_id_counter x, dangling_access := dangling_access x\<rparr>"

record ('b, 'c) PTxn = "('b, 'c) TransactionBase" +
  pt_self :: nat
  pt_lock :: LockTxn
  read_timestamp :: TxnTimestamp
  commit_timestamp :: TxnTimestamp
  use_only_the_last_commit_time_batch_for_recovery :: bool
  skip_prepare :: bool
  skip_concurrency_control :: bool
  cfs_with_ts_tracked_when_indexing_disabled :: "ColumnFamilyId list"

type_synonym ('b, 'c, 'd) pt_world = "('b, 'c) PTxn \<times> 'd pworld"

section \<open>The registries of the transaction database\<close>

definition InsertExpirableTransaction :: "TransactionID \<Rightarrow> nat \<Rightarrow> ('d, 'm) txn_db_scheme \<Rightarrow> ('d, 'm) txn_db_scheme" where
  "InsertExpirableTransaction tx_id tx r =
     (if map_of (expirable_transactions r) tx_id = None
      then r\<lparr>expirable_transactions := AList.update tx_id tx (expirable_transactions r)\<rparr> else r)"

definition RemoveExpirableTransaction :: "TransactionID \<Rightarrow> ('d, 'm) txn_db_scheme \<Rightarrow> ('d, 'm) txn_db_scheme" where
  "RemoveExpirableTransaction tx_id r =
     r\<lparr>expirable_transactions := AList.delete tx_id (expirable_transactions r)\<rparr>"

text \<open>\<open>TryStealingLocks\<close> of the object at an address; a destroyed object is recorded as a dangling access.\<close>

definition TryStealingLocks :: "nat \<Rightarrow> ('d, 'm) txn_db_scheme \<Rightarrow> bool \<times> ('d, 'm) txn_db_scheme" where
  "TryStealingLocks tx r =
     (case txn_states r tx of
        None \<Rightarrow> (False, r\<lparr>dangling_access := True\<rparr>)
      | Some s \<Rightarrow>
          if s = STARTED then (True, r\<lparr>txn_states := (txn_states r)(tx := Some LOCKS_STOLEN)\<rparr>) else (False, r))"

definition TryStealingExpiredTransactionLocks ::
  "TransactionID \<Rightarrow> ('d, 'm) txn_db_scheme \<Rightarrow> bool \<times> ('d, 'm) txn_db_scheme" where
  "TryStealingExpiredTransactionLocks tx_id r =
     (case map_of (expirable_transactions r) tx_id of None \<Rightarrow> (True, r) | Some tx \<Rightarrow> TryStealingLocks tx r)"

definition GetTransactionByName :: "string \<Rightarrow> ('d, 'm) txn_db_scheme \<Rightarrow> nat option" where
  "GetTransactionByName name r = map_of (transactions r) name"

definition RegisterTransaction :: "string \<Rightarrow> nat \<Rightarrow> ('d, 'm) txn_db_scheme \<Rightarrow> ('d, 'm) txn_db_scheme" where
  "RegisterTransaction name tx r = r\<lparr>transactions := AList.update name tx (transactions r)\<rparr>"

text \<open>Erasing the end iterator, when the name is not registered, is undefined.\<close>

definition UnregisterTransaction :: "string \<Rightarrow> ('d, 'm) txn_db_scheme \<Rightarrow> ('d, 'm) txn_db_scheme outcome" where
  "UnregisterTransaction name r =
     (if map_of (transactions r) name = None then Undefined
      else Returned (r\<lparr>transactions := AList.delete name (transactions r)\<rparr>))"

definition PTxnDB_TryLock ::
  "plm_env \<Rightarrow> ColumnFamilyId \<Rightarrow> string \<Rightarrow> bool \<Rightarrow> ('b, 'c, 'd) pt_world \<Rightarrow> (Status \<times> ('b, 'c, 'd) pt_world) outcome" where
  "PTxnDB_TryLock env cf key excl = (\<lambda>(t, r).
     case pw_calls r of
       [] \<Rightarrow> Still_waiting
     | c # calls \<Rightarrow>
         bind_outcome
           (PLM_TryLock (pe_hash env) TryStealingExpiredTransactionLocks (pe_thread env) cf key excl
              (lc_start_time c) (lc_try_lock c) (lc_now c) (lc_wakes c)
              \<lparr>lw_plm = pw_plm r, lw_txn = pt_lock t, lw_db = take_db r\<rparr>)
           (\<lambda>(s, lw). Returned (s, t\<lparr>pt_lock := lw_txn lw\<rparr>,
              (put_db (lw_db lw) r)\<lparr>pw_plm := lw_plm lw, pw_calls := calls\<rparr>)))"

definition PTxnDB_UnLock ::
  "plm_env \<Rightarrow> TrackedKeys \<Rightarrow> ('b, 'c, 'd) pt_world \<Rightarrow> ('b, 'c, 'd) pt_world outcome" where
  "PTxnDB_UnLock env keys = (\<lambda>(t, r).
     bind_outcome (defined_or (UnLock_tracker (pe_hash env) (pe_thread env) (pw_plm r) (txn_id (pt_lock t)) keys))
       (\<lambda>m. Returned (t, r\<lparr>pw_plm := m\<rparr>)))"

definition PTxnDB_UnLock_key ::
  "plm_env \<Rightarrow> ColumnFamilyId \<Rightarrow> string \<Rightarrow> ('b, 'c, 'd) pt_world \<Rightarrow> ('b, 'c, 'd) pt_world outcome" where
  "PTxnDB_UnLock_key env cf key = (\<lambda>(t, r).
     bind_outcome (defined_or (UnLock_key (pe_hash env) (pe_thread env) (pw_plm r) (txn_id (pt_lock t)) cf key))
       (\<lambda>m. Returned (t, r\<lparr>pw_plm := m\<rparr>)))"

section \<open>Construction, clearing, destruction\<close>

definition has_state :: "TransactionState \<Rightarrow> ('b, 'c, 'd) pt_world \<Rightarrow> bool" where
  "has_state s = (\<lambda>(t, r). txn_states r (pt_self t) = Some s)"

definition set_state :: "TransactionState \<Rightarrow> ('b, 'c, 'd) pt_world \<Rightarrow> ('b, 'c, 'd) pt_world" where
  "set_state s = (\<lambda>(t, r). (t, r\<lparr>txn_states := (txn_states r)(pt_self t := Some s)\<rparr>))"

definition cas_state ::
  "TransactionState \<Rightarrow> TransactionState \<Rightarrow> ('b, 'c, 'd) pt_world \<Rightarrow> bool \<times> ('b, 'c, 'd) pt_world" where
  "cas_state expected desired w = (if has_state expected w then (True, set_state desired w) else (False, w))"

definition GenTxnID :: "('d, 'm) txn_db_scheme \<Rightarrow> TransactionID \<times> ('d, 'm) txn_db_scheme" where
  "GenTxnID r = (txn_id_counter r, r\<lparr>txn_id_counter := txn_id_counter r + 1\<rparr>)"

definition PTxn_Initialize ::
  "('b, 'c, 'd) db_ops \<Rightarrow> plm_env \<Rightarrow> TransactionOptions \<Rightarrow> ('b, 'c, 'd) pt_world \<Rightarrow> ('b, 'c, 'd) pt_world" where
  "PTxn_Initialize ops env txn_options = (\<lambda>(t, r).
     let (new_id, r) =
           (if dbo_lock_mgr_handle (pe_options env) = Some True then (of_nat (pt_self t), r) else GenTxnID r);
         (t, r) = set_state STARTED (t, r);
         timeout = to_lock_timeout txn_options * 1000;
         timeout = (if timeout < 0 then dbo_transaction_lock_timeout (pe_options env) * 1000 else timeout);
         expiration = (if to_expiration txn_options \<ge> 0
                       then start_time t + of_int (to_expiration txn_options * 1000) else 0);
         t = t\<lparr>write_batch := wbwi_SetMaxBytes ops (to_max_write_batch_size txn_options) (write_batch t),
               skip_concurrency_control := to_skip_concurrency_control txn_options,
               pt_lock := (pt_lock t)\<lparr>txn_id := new_id, deadlock_detect := to_deadlock_detect txn_options,
                 deadlock_detect_depth := to_deadlock_detect_depth txn_options, lock_timeout := timeout,
                 lt_expiration_time := expiration\<rparr>\<rparr>;
         (t, r) = (if to_set_snapshot txn_options then SetSnapshot ops (t, r) else (t, r));
         r = (if expiration > 0 then InsertExpirableTransaction new_id (pt_self t) r else r)
     in (t\<lparr>use_only_the_last_commit_time_batch_for_recovery :=
             to_use_only_the_last_commit_time_batch_for_recovery txn_options,
           skip_prepare := to_skip_prepare txn_options,
           read_timestamp := kMaxTxnTimestamp, commit_timestamp := kMaxTxnTimestamp\<rparr>, r))"

definition LockTxn_new :: LockTxn where
  "LockTxn_new = \<lparr>txn_id = 0, lt_expiration_time = 0, lock_timeout = 0, deadlock_detect = False,
     deadlock_detect_depth = 0, waiting_txn_ids = [], waiting_cf_id = 0, waiting_key = None\<rparr>"

definition PTxn_new ::
  "('b, 'c, 'd) db_ops \<Rightarrow> plm_env \<Rightarrow> u64 \<Rightarrow> WriteOptions \<Rightarrow> TransactionOptions \<Rightarrow> nat \<Rightarrow> 'd pworld \<Rightarrow> ('b, 'c, 'd) pt_world" where
  "PTxn_new ops env now wo txn_options self r =
     PTxn_Initialize ops env txn_options
       (TransactionBase.extend (TransactionBase_new ops now wo)
          (PTxn.fields self LockTxn_new kMaxTxnTimestamp kMaxTxnTimestamp False False False []), r)"

definition PTxn_Clear ::
  "('b, 'c, 'd) db_ops \<Rightarrow> plm_env \<Rightarrow> ('b, 'c, 'd) pt_world \<Rightarrow> ('b, 'c, 'd) pt_world outcome" where
  "PTxn_Clear ops env w =
     bind_outcome (PTxnDB_UnLock env (tracked_locks (fst w)) w) (\<lambda>(t, r). Returned (TxnBase_Clear ops t, r))"

text \<open>\<^verbatim>\<open>UnregisterTransaction\<close> on the transaction's own name.\<close>

definition unregister :: "('b, 'c, 'd) pt_world \<Rightarrow> ('b, 'c, 'd) pt_world outcome" where
  "unregister = (\<lambda>(t, r). bind_outcome (UnregisterTransaction (txn_name t) r) (\<lambda>r. Returned (t, r)))"

definition PTxn_destroy :: "plm_env \<Rightarrow> ('b, 'c, 'd) pt_world \<Rightarrow> 'd pworld outcome" where
  "PTxn_destroy env w =
     bind_outcome (PTxnDB_UnLock env (tracked_locks (fst w)) w) (\<lambda>(t, r).
       let r = (if lt_expiration_time (pt_lock t) > 0 then RemoveExpirableTransaction (txn_id (pt_lock t)) r else r)
       in bind_outcome
            (if txn_name t \<noteq> '''' \<and> \<not> has_state COMMITTED (t, r) then unregister (t, r) else Returned (t, r))
            (\<lambda>(t, r). Returned (r\<lparr>txn_states := (txn_states r)(pt_self t := None)\<rparr>)))"

definition PTxn_Reinitialize ::
  "('b, 'c, 'd) db_ops \<Rightarrow> plm_env \<Rightarrow> u64 \<Rightarrow> WriteOptions \<Rightarrow> TransactionOptions \<Rightarrow> ('b, 'c, 'd) pt_world \<Rightarrow>
   ('b, 'c, 'd) pt_world outcome" where
  "PTxn_Reinitialize ops env now wo txn_options w =
     bind_outcome (if txn_name (fst w) \<noteq> '''' \<and> \<not> has_state COMMITTED w then unregister w else Returned w) (\<lambda>w.
     bind_outcome (TxnBase_Reinitialize ops (PTxn_Clear ops env) now wo w) (\<lambda>w.
     Returned (PTxn_Initialize ops env txn_options w)))"

definition PTxn_IsExpired :: "u64 \<Rightarrow> ('b, 'c) PTxn \<Rightarrow> bool" where
  "PTxn_IsExpired now t \<longleftrightarrow> lt_expiration_time (pt_lock t) > 0 \<and> now \<ge> lt_expiration_time (pt_lock t)"

section \<open>Locking and validating a key\<close>

text \<open>\<^verbatim>\<open>kMaxSequenceNumber\<close> as the lower bound of uncommitted data is the default argument of the check.\<close>

definition ValidateSnapshot ::
  "('b, 'c, 'd) db_ops \<Rightarrow> ColumnFamilyHandle option \<Rightarrow> string \<Rightarrow> SequenceNumber \<Rightarrow> ('b, 'c, 'd) pt_world \<Rightarrow>
   Status \<times> SequenceNumber" where
  "ValidateSnapshot ops cf key tracked_at_seq = (\<lambda>(t, r).
     let snap_seq = (case snapshot t of Some s \<Rightarrow> GetSequenceNumber s | None \<Rightarrow> db_GetLatestSequenceNumber ops (w_db r))
     in if snapshot t \<noteq> None \<and> tracked_at_seq \<le> snap_seq then (OK, tracked_at_seq)
        else let cfh = (case cf of Some h \<Rightarrow> h | None \<Rightarrow> db_DefaultColumnFamily ops);
                 ts_sz = cfh_timestamp_size cfh;
                 ts_buf = (if ts_sz > 0 \<and> read_timestamp t < kMaxTxnTimestamp then PutFixed64 (read_timestamp t) else [])
             in (CheckKeyForConflicts ops (w_db r) cfh key snap_seq (if ts_sz = 0 then None else Some ts_buf) False
                   None (db_kMaxSequenceNumber ops), snap_seq))"

text \<open>
  The validation step of \<^verbatim>\<open>TryLock\<close>: a failed validation gives back the lock, or the upgrade, that
  this call took.
\<close>

definition validate_lock ::
  "('b, 'c, 'd) db_ops \<Rightarrow> plm_env \<Rightarrow> ColumnFamilyHandle option \<Rightarrow> string \<Rightarrow> bool \<Rightarrow> bool \<Rightarrow> SequenceNumber \<Rightarrow>
   ('b, 'c, 'd) pt_world \<Rightarrow> (Status \<times> SequenceNumber \<times> ('b, 'c, 'd) pt_world) outcome" where
  "validate_lock ops env cf key lock_upgrade previously_locked tracked_at_seq w =
     (case ValidateSnapshot ops cf key tracked_at_seq w of
        (s, seq) \<Rightarrow>
          if ok s then Returned (s, seq, w)
          else if lock_upgrade
          then bind_outcome (PTxnDB_TryLock env (db_GetColumnFamilyID ops cf) key False w)
                 (\<lambda>(s, w). Returned (s, seq, w))
          else if \<not> previously_locked
          then bind_outcome (PTxnDB_UnLock_key env (db_GetColumnFamilyID ops cf) key w) (\<lambda>w. Returned (s, seq, w))
          else Returned (s, seq, w))"

text \<open>
  What \<^verbatim>\<open>TryLock\<close> does once it has, or has not, got the lock: without validation it only looks up the
  sequence number to track the key at.
\<close>

definition check_lock ::
  "('b, 'c, 'd) db_ops \<Rightarrow> plm_env \<Rightarrow> ColumnFamilyHandle option \<Rightarrow> string \<Rightarrow> bool \<Rightarrow> bool \<Rightarrow> bool \<Rightarrow> bool \<Rightarrow>
   SequenceNumber \<Rightarrow> Status \<Rightarrow> ('b, 'c, 'd) pt_world \<Rightarrow> (Status \<times> SequenceNumber \<times> ('b, 'c, 'd) pt_world) outcome" where
  "check_lock ops env cf key do_validate assume_tracked lock_upgrade previously_locked tracked_at_seq s w =
     (let ts_sz = cfh_timestamp_size (case cf of Some h \<Rightarrow> h | None \<Rightarrow> db_DefaultColumnFamily ops)
      in if \<not> do_validate \<or> (snapshot (fst w) = None \<and> (ts_sz = 0 \<or> read_timestamp (fst w) = kMaxTxnTimestamp))
         then Returned
           (if assume_tracked \<and> \<not> previously_locked
            then InvalidArgument_msg ''assume_tracked is set but it is not tracked yet'' '''' else s,
            if tracked_at_seq = db_kMaxSequenceNumber ops
            then db_GetLatestSequenceNumber ops (w_db (snd w)) else tracked_at_seq, w)
         else if ok s then validate_lock ops env cf key lock_upgrade previously_locked tracked_at_seq w
         else Returned (s, tracked_at_seq, w))"

text \<open>\<^verbatim>\<open>TryLock\<close> with a point lock tracker.\<close>

definition PTxn_TryLock ::
  "('b, 'c, 'd) db_ops \<Rightarrow> plm_env \<Rightarrow> ('b, 'c, 'd) pt_world try_lock_method" where
  "PTxn_TryLock ops env cf key read_only excl do_validate assume_tracked w =
     (if skip_concurrency_control (fst w) then Returned (OK, w)
      else
        let cfh_id = db_GetColumnFamilyID ops cf;
            status = Tracker_GetPointLockStatus (tracked_locks (fst w)) cfh_id key;
            previously_locked = pls_locked status;
            lock_upgrade = (previously_locked \<and> excl \<and> \<not> pls_exclusive status)
        in bind_outcome
             (if \<not> previously_locked \<or> lock_upgrade then PTxnDB_TryLock env cfh_id key excl w else Returned (OK, w))
             (\<lambda>(s, w).
           bind_outcome
             (check_lock ops env cf key do_validate assume_tracked lock_upgrade previously_locked
                (if pls_locked status then pls_seq status else db_kMaxSequenceNumber ops) s (SetSnapshotIfNeeded ops w))
             (\<lambda>(s, seq, t, r).
           Returned (s, if ok s \<and> \<not> assume_tracked then TrackKey cfh_id key seq read_only excl t else t, r))))"

definition PTxn_UnlockGetForUpdate ::
  "('b, 'c, 'd) db_ops \<Rightarrow> plm_env \<Rightarrow> ColumnFamilyHandle option \<Rightarrow> string \<Rightarrow> ('b, 'c, 'd) pt_world \<Rightarrow>
   ('b, 'c, 'd) pt_world outcome" where
  "PTxn_UnlockGetForUpdate ops env cf key = PTxnDB_UnLock_key env (db_GetColumnFamilyID ops cf) key"

definition PTxn_RollbackToSavePoint ::
  "('b, 'c, 'd) db_ops \<Rightarrow> plm_env \<Rightarrow> ('b, 'c, 'd) pt_world \<Rightarrow> (Status \<times> ('b, 'c, 'd) pt_world) outcome" where
  "PTxn_RollbackToSavePoint ops env w =
     (if \<not> has_state STARTED w
      then Returned (InvalidArgument_msg ''Transaction is beyond state for rollback.'' '''', w)
      else bind_outcome
             (case save_points (fst w) of
                [] \<Rightarrow> Returned w
              | sp # _ \<Rightarrow>
                  bind_outcome (defined_or (GetTrackedLocksSinceSavePoint (tracked_locks (fst w)) (new_locks sp)))
                    (\<lambda>locks. PTxnDB_UnLock env locks w))
             (\<lambda>(t, r). bind_outcome (defined_or (TxnBase_RollbackToSavePoint ops t)) (\<lambda>(s, t). Returned (s, t, r))))"

definition PTxn_SetName ::
  "string \<Rightarrow> ('b, 'c, 'd) pt_world \<Rightarrow> Status \<times> ('b, 'c, 'd) pt_world" where
  "PTxn_SetName name = (\<lambda>(t, r).
     if has_state STARTED (t, r)
     then if txn_name t \<noteq> '''' then (InvalidArgument_msg ''Transaction has already been named.'' '''', t, r)
          else if GetTransactionByName name r \<noteq> None
          then (InvalidArgument_msg ''Transaction name must be unique.'' '''', t, r)
          else if length name < 1 \<or> length name > 512
          then (InvalidArgument_msg ''Transaction name length must be between 1 and 512 chars.'' '''', t, r)
          else (OK, t\<lparr>txn_name := name\<rparr>, RegisterTransaction name (pt_self t) r)
     else (InvalidArgument_msg ''Transaction is beyond state for naming.'' '''', t, r))"

section \<open>What the write policy supplies\<close>

text \<open>
  The pure virtual methods of \<^verbatim>\<open>PessimisticTransaction\<close>. The functions below that take this record are
  its non-virtual methods; \<open>WriteCommitted\<close> is the instance of \<^verbatim>\<open>WriteCommittedTxn\<close>.
\<close>

record ('c, 'w) txn_internals =
  PrepareInternal :: "'w \<Rightarrow> Status \<times> 'w"
  CommitWithoutPrepareInternal :: "'w \<Rightarrow> Status \<times> 'w"
  CommitBatchInternal :: "'c \<Rightarrow> 'w \<Rightarrow> Status \<times> 'w"
  CommitInternal :: "'w \<Rightarrow> Status \<times> 'w"
  RollbackInternal :: "'w \<Rightarrow> Status \<times> 'w"

definition SnapshotCreationCallback ::
  "('b, 'c, 'd) db_ops \<Rightarrow> TxnTimestamp \<Rightarrow> nat option \<Rightarrow> SequenceNumber \<Rightarrow> Snapshot option \<times> 'd \<Rightarrow> Snapshot option \<times> 'd" where
  "SnapshotCreationCallback ops commit_ts notifier seq = (\<lambda>(_, d).
     case db_CreateTimestampedSnapshot ops seq commit_ts d of
       (_, snap, d) \<Rightarrow>
         (snap, case (snap, notifier) of (Some _, Some n) \<Rightarrow> db_SnapshotCreated ops n snap d | _ \<Rightarrow> d))"

text \<open>The call \<^verbatim>\<open>db_impl_->WriteImpl\<close>; it reaches the snapshot of the transaction only through the callback.\<close>

definition WriteImpl ::
  "('b, 'c, 'd) db_ops \<Rightarrow> WriteOptions \<Rightarrow> 'c \<Rightarrow> WriteImplArgs \<Rightarrow>
   (SequenceNumber \<Rightarrow> Snapshot option \<times> 'd \<Rightarrow> Snapshot option \<times> 'd) option \<Rightarrow> ('b, 'c, 'd) pt_world \<Rightarrow>
   Status \<times> u64 option \<times> SequenceNumber \<times> ('b, 'c, 'd) pt_world" where
  "WriteImpl ops wo batch args cb = (\<lambda>(t, r).
     case db_WriteImpl ops wo batch args cb (snapshot t, w_db r) of
       (s, log, seq, snap, d) \<Rightarrow>
         (s, log, seq, t\<lparr>snapshot := (if cb = None then snapshot t else snap)\<rparr>, r\<lparr>w_db := d\<rparr>))"

definition plain_write :: "u64 \<Rightarrow> WriteImplArgs" where
  "plain_write log_ref = \<lparr>wi_log_ref = log_ref, wi_disable_memtable = False, wi_mark_log = False\<rparr>"

definition WCTxn_PrepareInternal ::
  "('b, 'c, 'd) db_ops \<Rightarrow> ('b, 'c, 'd) pt_world \<Rightarrow> Status \<times> ('b, 'c, 'd) pt_world" where
  "WCTxn_PrepareInternal ops = (\<lambda>(t, r).
     let wo = (write_options t)\<lparr>disableWAL := False\<rparr>;
         t = t\<lparr>write_batch := wbwi_MarkEndPrepare ops (txn_name t) (write_batch t)\<rparr>;
         (s, log, _, t, r) = WriteImpl ops wo (wbwi_GetWriteBatch ops (write_batch t))
           \<lparr>wi_log_ref = 0, wi_disable_memtable = True, wi_mark_log = True\<rparr> None (t, r)
     in (s, t\<lparr>log_number := (case log of None \<Rightarrow> log_number t | Some l \<Rightarrow> l)\<rparr>, r))"

text \<open>
  The size of the timestamps of a column family, as the commit operations tell it to
  \<^verbatim>\<open>UpdateTimestamps\<close>.
\<close>

definition commit_ts_size :: "('b, 'c, 'd) db_ops \<Rightarrow> ('b, 'c) PTxn \<Rightarrow> ColumnFamilyId \<Rightarrow> u64" where
  "commit_ts_size ops t cf =
     (if cf \<in> set (cfs_with_ts_tracked_when_indexing_disabled t) then 8
      else case wbwi_timestamp_size ops (write_batch t) cf of None \<Rightarrow> - 1 | Some n \<Rightarrow> of_nat n)"

text \<open>The last part of both commit operations: the callback for a snapshot, the write, the id.\<close>

definition commit_write ::
  "('b, 'c, 'd) db_ops \<Rightarrow> 'c \<Rightarrow> u64 \<Rightarrow> ('b, 'c, 'd) pt_world \<Rightarrow> Status \<times> ('b, 'c, 'd) pt_world" where
  "commit_write ops batch log_ref = (\<lambda>(t, r).
     if snapshot_needed t \<and> commit_timestamp t = kMaxTxnTimestamp
     then (InvalidArgument_msg ''Must set transaction commit timestamp'' '''', t, r)
     else
       let cb = (if snapshot_needed t
                 then Some (SnapshotCreationCallback ops (commit_timestamp t) (snapshot_notifier t)) else None);
           (s, _, seq, t, r) = WriteImpl ops (write_options t) batch (plain_write log_ref) cb (t, r)
       in (s, if ok s then t\<lparr>seq_id := seq\<rparr> else t, r))"

definition WCTxn_CommitWithoutPrepareInternal ::
  "('b, 'c, 'd) db_ops \<Rightarrow> ('b, 'c, 'd) pt_world \<Rightarrow> Status \<times> ('b, 'c, 'd) pt_world" where
  "WCTxn_CommitWithoutPrepareInternal ops = (\<lambda>(t, r).
     let needs_ts = wb_HasKeyWithTimestamp ops (wbwi_GetWriteBatch ops (write_batch t))
     in if needs_ts \<and> commit_timestamp t = kMaxTxnTimestamp
        then (InvalidArgument_msg ''Must assign a commit timestamp'' '''', t, r)
        else
          let (s, t) =
                (if needs_ts
                 then case wbwi_UpdateTimestamps ops (commit_timestamp t) (commit_ts_size ops t) (write_batch t) of
                        (s, b) \<Rightarrow> (s, t\<lparr>write_batch := b\<rparr>)
                 else (OK, t))
          in if \<not> ok s then (s, t, r)
             else commit_write ops (wbwi_GetWriteBatch ops (write_batch t)) 0 (t, r))"

definition WCTxn_CommitBatchInternal ::
  "('b, 'c, 'd) db_ops \<Rightarrow> 'c \<Rightarrow> ('b, 'c, 'd) pt_world \<Rightarrow> Status \<times> ('b, 'c, 'd) pt_world" where
  "WCTxn_CommitBatchInternal ops batch = (\<lambda>(t, r).
     case WriteImpl ops (write_options t) batch (plain_write 0) None (t, r) of
       (s, _, seq, t, r) \<Rightarrow> (s, if ok s then t\<lparr>seq_id := seq\<rparr> else t, r))"

definition WCTxn_CommitInternal ::
  "('b, 'c, 'd) db_ops \<Rightarrow> ('b, 'c, 'd) pt_world \<Rightarrow> Status \<times> ('b, 'c, 'd) pt_world" where
  "WCTxn_CommitInternal ops = (\<lambda>(t, r).
     let needs_ts = wb_HasKeyWithTimestamp ops (wbwi_GetWriteBatch ops (write_batch t))
     in if needs_ts \<and> commit_timestamp t = kMaxTxnTimestamp
        then (InvalidArgument_msg ''Must assign a commit timestamp'' '''', t, r)
        else
          let (s, c) = (if \<not> needs_ts then wb_MarkCommit ops (txn_name t) (commit_time_batch t)
                        else wb_MarkCommitWithTimestamp ops (txn_name t) (commit_timestamp t) (commit_time_batch t));
              t = t\<lparr>commit_time_batch := c\<rparr>;
              (s, t) =
                (if needs_ts \<and> ok s
                 then case wbwi_UpdateTimestamps ops (commit_timestamp t) (commit_ts_size ops t) (write_batch t) of
                        (s, b) \<Rightarrow> (s, t\<lparr>write_batch := b\<rparr>)
                 else (s, t))
          in if \<not> ok s then (s, t, r)
             else
               let c = wb_Append ops (wb_MarkWalTerminationPoint ops (commit_time_batch t))
                         (wbwi_GetWriteBatch ops (write_batch t))
               in commit_write ops c (log_number t) (t\<lparr>commit_time_batch := c\<rparr>, r))"

definition WCTxn_RollbackInternal ::
  "('b, 'c, 'd) db_ops \<Rightarrow> ('b, 'c, 'd) pt_world \<Rightarrow> Status \<times> ('b, 'c, 'd) pt_world" where
  "WCTxn_RollbackInternal ops = (\<lambda>(t, r).
     case WriteImpl ops (write_options t) (wb_MarkRollback ops (txn_name t) (wb_new ops 0)) (plain_write 0) None (t, r) of
       (s, _, _, t, r) \<Rightarrow> (s, t, r))"

definition WriteCommitted :: "('b, 'c, 'd) db_ops \<Rightarrow> ('c, ('b, 'c, 'd) pt_world) txn_internals" where
  "WriteCommitted ops = \<lparr>PrepareInternal = WCTxn_PrepareInternal ops,
     CommitWithoutPrepareInternal = WCTxn_CommitWithoutPrepareInternal ops,
     CommitBatchInternal = WCTxn_CommitBatchInternal ops, CommitInternal = WCTxn_CommitInternal ops,
     RollbackInternal = WCTxn_RollbackInternal ops\<rparr>"

section \<open>Locking a batch\<close>

text \<open>
  The handler of \<^verbatim>\<open>LockBatch\<close> collects the keys in a \<^verbatim>\<open>std::map\<close> from column families to \<^verbatim>\<open>std::set\<close>s of keys:
  sorted lists without duplicates. Strings are compared byte by byte, as unsigned numbers.
\<close>

type_synonym batch_keys = "(ColumnFamilyId \<times> string list) list"

fun RecordKey :: "ColumnFamilyId \<Rightarrow> string \<Rightarrow> batch_keys \<Rightarrow> batch_keys" where
  "RecordKey cf key [] = [(cf, [key])]"
| "RecordKey cf key ((c, ks) # m) =
     (if cf < c then (cf, [key]) # (c, ks) # m
      else if cf = c then (c, insort_insert key ks) # m
      else (c, ks) # RecordKey cf key m)"

fun LockBatch_Handler :: "batch_event \<Rightarrow> batch_keys \<Rightarrow> (Status \<times> batch_keys) outcome" where
  "LockBatch_Handler (PutCF cf key value) m = Returned (OK, RecordKey cf key m)"
| "LockBatch_Handler (MergeCF cf key value) m = Returned (OK, RecordKey cf key m)"
| "LockBatch_Handler (DeleteCF cf key) m = Returned (OK, RecordKey cf key m)"
| "LockBatch_Handler e m = Returned (Handler_default e, m)"

fun lock_keys ::
  "('b, 'c, 'd) db_ops \<Rightarrow> plm_env \<Rightarrow> ColumnFamilyId \<Rightarrow> string list \<Rightarrow> TrackedKeys \<Rightarrow> ('b, 'c, 'd) pt_world \<Rightarrow>
   (Status \<times> TrackedKeys \<times> ('b, 'c, 'd) pt_world) outcome" where
  "lock_keys ops env cf [] keys_to_unlock w = Returned (OK, keys_to_unlock, w)"
| "lock_keys ops env cf (key # keys) keys_to_unlock w =
     bind_outcome (PTxnDB_TryLock env cf key True w) (\<lambda>(s, w).
       if \<not> ok s then Returned (s, keys_to_unlock, w)
       else lock_keys ops env cf keys
              (Track keys_to_unlock \<lparr>plr_column_family_id = cf, plr_key = key, plr_seq = db_kMaxSequenceNumber ops,
                 plr_read_only = False, plr_exclusive = True\<rparr>) w)"

fun lock_cfs ::
  "('b, 'c, 'd) db_ops \<Rightarrow> plm_env \<Rightarrow> batch_keys \<Rightarrow> TrackedKeys \<Rightarrow> ('b, 'c, 'd) pt_world \<Rightarrow>
   (Status \<times> TrackedKeys \<times> ('b, 'c, 'd) pt_world) outcome" where
  "lock_cfs ops env [] keys_to_unlock w = Returned (OK, keys_to_unlock, w)"
| "lock_cfs ops env ((cf, keys) # m) keys_to_unlock w =
     bind_outcome (lock_keys ops env cf keys keys_to_unlock w) (\<lambda>(s, keys_to_unlock, w).
       if \<not> ok s then Returned (s, keys_to_unlock, w) else lock_cfs ops env m keys_to_unlock w)"

definition LockBatch ::
  "('b, 'c, 'd) db_ops \<Rightarrow> plm_env \<Rightarrow> 'c option \<Rightarrow> TrackedKeys \<Rightarrow> ('b, 'c, 'd) pt_world \<Rightarrow>
   (Status \<times> TrackedKeys \<times> ('b, 'c, 'd) pt_world) outcome" where
  "LockBatch ops env batch keys_to_unlock w =
     (case batch of
        None \<Rightarrow> Returned (InvalidArgument_msg ''batch is nullptr'' '''', keys_to_unlock, w)
      | Some c \<Rightarrow>
          (case wb_Iterate ops c of
             (es, final) \<Rightarrow>
               bind_outcome (replay LockBatch_Handler es final []) (\<lambda>(s, m).
                 if \<not> ok s then Returned (s, keys_to_unlock, w)
                 else bind_outcome (lock_cfs ops env m keys_to_unlock w) (\<lambda>(s, keys_to_unlock, w).
                   if \<not> ok s
                   then bind_outcome (PTxnDB_UnLock env keys_to_unlock w) (\<lambda>w. Returned (s, keys_to_unlock, w))
                   else Returned (s, keys_to_unlock, w)))))"

section \<open>Preparing, committing, rolling back\<close>

text \<open>
  A compare-and-exchange guards the transactions that can expire, whose state other threads change; a
  plain test the others.
\<close>

definition PTxn_CommitBatch ::
  "('b, 'c, 'd) db_ops \<Rightarrow> plm_env \<Rightarrow> ('c, ('b, 'c, 'd) pt_world) txn_internals \<Rightarrow> u64 \<Rightarrow> 'c option \<Rightarrow>
   ('b, 'c, 'd) pt_world \<Rightarrow> (Status \<times> ('b, 'c, 'd) pt_world) outcome" where
  "PTxn_CommitBatch ops env pol now batch w =
     (case batch of
        None \<Rightarrow> Returned (InvalidArgument_msg ''batch is nullptr'' '''', w)
      | Some c \<Rightarrow>
          if wb_HasKeyWithTimestamp ops c
          then Returned (NotSupported_msg ''Batch to commit includes timestamp assigned before locking'' '''', w)
          else bind_outcome (LockBatch ops env batch PointLockTracker_new w) (\<lambda>(s, keys_to_unlock, w).
            if \<not> ok s then Returned (s, w)
            else
              let (can_commit, w) =
                    (if PTxn_IsExpired now (fst w) then (False, w)
                     else if lt_expiration_time (pt_lock (fst w)) > 0 then cas_state STARTED AWAITING_COMMIT w
                     else (has_state STARTED w, w));
                  (s, w) =
                    (if can_commit
                     then let (s, w) = CommitBatchInternal pol c (set_state AWAITING_COMMIT w)
                          in (s, if ok s then set_state COMMITTED w else w)
                     else if has_state LOCKS_STOLEN w then (Expired kNone, w)
                     else (InvalidArgument_msg ''Transaction is not in state for commit.'' '''', w))
              in bind_outcome (PTxnDB_UnLock env keys_to_unlock w) (\<lambda>w. Returned (s, w))))"

definition PTxn_Prepare ::
  "('c, ('b, 'c, 'd) pt_world) txn_internals \<Rightarrow> u64 \<Rightarrow> ('b, 'c, 'd) pt_world \<Rightarrow> Status \<times> ('b, 'c, 'd) pt_world" where
  "PTxn_Prepare pol now w =
     (if txn_name (fst w) = ''''
      then (InvalidArgument_msg ''Cannot prepare a transaction that has not been named.'' '''', w)
      else if PTxn_IsExpired now (fst w) then (Expired kNone, w)
      else
        let (can_prepare, w) = cas_state STARTED AWAITING_PREPARE w
        in if can_prepare
           then let (t, r) = w;
                    (s, w) = PrepareInternal pol (t\<lparr>pt_lock := (pt_lock t)\<lparr>lt_expiration_time := 0\<rparr>\<rparr>, r)
                in (s, if ok s then set_state PREPARED w else w)
           else if has_state LOCKS_STOLEN w then (Expired kNone, w)
           else if has_state PREPARED w then (InvalidArgument_msg ''Transaction has already been prepared.'' '''', w)
           else if has_state COMMITTED w then (InvalidArgument_msg ''Transaction has already been committed.'' '''', w)
           else if has_state ROLLEDBACK w then (InvalidArgument_msg ''Transaction has already been rolledback.'' '''', w)
           else (InvalidArgument_msg ''Transaction is not in state for commit.'' '''', w))"

definition prep_section_flushed ::
  "('b, 'c, 'd) db_ops \<Rightarrow> ('b, 'c, 'd) pt_world \<Rightarrow> ('b, 'c, 'd) pt_world" where
  "prep_section_flushed ops = (\<lambda>(t, r). (t, r\<lparr>w_db := db_MarkLogAsHavingPrepSectionFlushed ops (log_number t) (w_db r)\<rparr>))"

definition PTxn_Commit ::
  "('b, 'c, 'd) db_ops \<Rightarrow> plm_env \<Rightarrow> ('c, ('b, 'c, 'd) pt_world) txn_internals \<Rightarrow> u64 \<Rightarrow> ('b, 'c, 'd) pt_world \<Rightarrow>
   (Status \<times> ('b, 'c, 'd) pt_world) outcome" where
  "PTxn_Commit ops env pol now w =
     (if PTxn_IsExpired now (fst w) then Returned (Expired kNone, w)
      else
        let expirable = (lt_expiration_time (pt_lock (fst w)) > 0)
        in if \<not> expirable \<and> has_state STARTED w \<and> \<not> skip_prepare (fst w) then Returned (TxnNotPrepared, w)
           else
             let commit_prepared = (\<not> expirable \<and> has_state PREPARED w);
                 (commit_without_prepare, w) =
                   (if expirable then cas_state STARTED AWAITING_COMMIT w else (has_state STARTED w, w))
             in if commit_without_prepare
                then if wb_Count ops (commit_time_batch (fst w)) > 0
                     then Returned
                       (InvalidArgument_msg ''Commit-time batch contains values that will not be committed.'' '''', w)
                     else
                       let w = set_state AWAITING_COMMIT w;
                           w = (if log_number (fst w) > 0 then prep_section_flushed ops w else w);
                           (s, w) = CommitWithoutPrepareInternal pol w
                       in bind_outcome (if txn_name (fst w) \<noteq> '''' then unregister w else Returned w) (\<lambda>w.
                          bind_outcome (PTxn_Clear ops env w) (\<lambda>w.
                          Returned (s, if ok s then set_state COMMITTED w else w)))
                else if commit_prepared
                then let (s, w) = CommitInternal pol (set_state AWAITING_COMMIT w)
                     in if \<not> ok s then Returned (s, w)
                        else bind_outcome (unregister (prep_section_flushed ops w)) (\<lambda>w.
                             bind_outcome (PTxn_Clear ops env w) (\<lambda>w. Returned (s, set_state COMMITTED w)))
                else Returned
                  (if has_state LOCKS_STOLEN w then Expired kNone
                   else if has_state COMMITTED w
                   then InvalidArgument_msg ''Transaction has already been committed.'' ''''
                   else if has_state ROLLEDBACK w
                   then InvalidArgument_msg ''Transaction has already been rolledback.'' ''''
                   else InvalidArgument_msg ''Transaction is not in state for commit.'' '''', w))"

definition PTxn_Rollback ::
  "('b, 'c, 'd) db_ops \<Rightarrow> plm_env \<Rightarrow> ('c, ('b, 'c, 'd) pt_world) txn_internals \<Rightarrow> ('b, 'c, 'd) pt_world \<Rightarrow>
   (Status \<times> ('b, 'c, 'd) pt_world) outcome" where
  "PTxn_Rollback ops env pol w =
     (if has_state PREPARED w
      then let (s, w) = RollbackInternal pol (set_state AWAITING_ROLLBACK w)
           in if ok s
              then bind_outcome (PTxn_Clear ops env (prep_section_flushed ops w))
                     (\<lambda>w. Returned (s, set_state ROLLEDBACK w))
              else Returned (s, w)
      else if has_state STARTED w
      then let (s, w) =
                 (if log_number (fst w) > 0
                  then let (s, w) = RollbackInternal pol w in (s, if ok s then prep_section_flushed ops w else w)
                  else (OK, w))
           in bind_outcome (PTxn_Clear ops env w) (\<lambda>w. Returned (s, w))
      else if has_state COMMITTED w
      then Returned (InvalidArgument_msg ''This transaction has already been committed.'' '''', w)
      else Returned (InvalidArgument_msg ''Two phase transaction is not in state for rollback.'' '''', w))"

section \<open>The reads and writes of the write-committed policy\<close>

definition GetForUpdateImpl ::
  "('b, 'c, 'd) db_ops \<Rightarrow> plm_env \<Rightarrow> ReadOptions \<Rightarrow> ColumnFamilyHandle option \<Rightarrow> string \<Rightarrow> bool \<Rightarrow> bool \<Rightarrow> bool \<Rightarrow>
   ('b, 'c, 'd) pt_world \<Rightarrow> (Status \<times> string \<times> ('b, 'c, 'd) pt_world) outcome" where
  "GetForUpdateImpl ops env ro cf key want_value excl do_validate w =
     (let cfh = (case cf of Some h \<Rightarrow> h | None \<Rightarrow> db_DefaultColumnFamily ops);
          base = (\<lambda>ro. TxnBase_GetForUpdate ops (PTxn_TryLock ops env) ro (Some cfh) key want_value excl do_validate w);
          refuse = (\<lambda>s. Returned (s, '''', w))
      in if ro_timestamp ro = None \<and> cfh_timestamp_size cfh = 0 then base ro
         else
           let s = (case ro_timestamp ro of None \<Rightarrow> OK | Some ts \<Rightarrow> db_FailIfTsMismatchCf ops cfh ts)
           in if \<not> ok s then refuse s
              else if \<not> do_validate
              then refuse (InvalidArgument_msg
                     ''If do_validate is false then GetForUpdate with read_timestamp is not defined.'' '''')
              else if read_timestamp (fst w) = kMaxTxnTimestamp
              then refuse (InvalidArgument_msg ''read_timestamp must be set for validation'' '''')
              else (case ro_timestamp ro of
                      None \<Rightarrow> base (ro\<lparr>ro_timestamp := Some (read_timestamp (fst w))\<rparr>)
                    | Some ts \<Rightarrow>
                        if ts \<noteq> read_timestamp (fst w)
                        then refuse (InvalidArgument_msg ''Must read from the same read_timestamp'' '''')
                        else base ro))"

definition Operate ::
  "('b, 'c, 'd) db_ops \<Rightarrow> plm_env \<Rightarrow> ColumnFamilyHandle option \<Rightarrow> slice \<Rightarrow> bool \<Rightarrow> bool \<Rightarrow>
   (('b, 'c) PTxn \<Rightarrow> Status \<times> ('b, 'c) PTxn) \<Rightarrow> ('b, 'c, 'd) pt_world \<Rightarrow> (Status \<times> ('b, 'c, 'd) pt_world) outcome" where
  "Operate ops env cf key do_validate assume_tracked operation w =
     bind_outcome (PTxn_TryLock ops env cf (contiguous key) False True do_validate assume_tracked w) (\<lambda>(s, t, r).
       if \<not> ok s then Returned (s, t, r)
       else
         let cfh = (case cf of Some h \<Rightarrow> h | None \<Rightarrow> db_DefaultColumnFamily ops);
             t = (if cfh_timestamp_size cfh > 0 \<and> \<not> indexing_enabled t
                  then t\<lparr>cfs_with_ts_tracked_when_indexing_disabled :=
                           List.insert (cfh_id cfh) (cfs_with_ts_tracked_when_indexing_disabled t)\<rparr> else t);
             (s, t) = operation t
         in Returned (s, t, r))"

definition WCTxn_Put where
  "WCTxn_Put ops env cf key value assume_tracked =
     Operate ops env cf key (\<not> assume_tracked) assume_tracked (batch_op ops (Batch_Put cf key value) count_puts)"

definition WCTxn_PutUntracked where
  "WCTxn_PutUntracked ops env cf key value =
     Operate ops env cf key False False (batch_op ops (Batch_Put cf key value) count_puts)"

definition WCTxn_Delete where
  "WCTxn_Delete ops env cf key assume_tracked =
     Operate ops env cf key (\<not> assume_tracked) assume_tracked (batch_op ops (Batch_Delete cf key) count_deletes)"

definition WCTxn_DeleteUntracked where
  "WCTxn_DeleteUntracked ops env cf key =
     Operate ops env cf key False False (batch_op ops (Batch_Delete cf key) count_deletes)"

definition WCTxn_SingleDelete where
  "WCTxn_SingleDelete ops env cf key assume_tracked =
     Operate ops env cf key (\<not> assume_tracked) assume_tracked (batch_op ops (Batch_SingleDelete cf key) count_deletes)"

definition WCTxn_SingleDeleteUntracked where
  "WCTxn_SingleDeleteUntracked ops env cf key =
     Operate ops env cf key False False (batch_op ops (Batch_SingleDelete cf key) count_deletes)"

definition WCTxn_Merge where
  "WCTxn_Merge ops env cf key value assume_tracked =
     Operate ops env cf key (\<not> assume_tracked) assume_tracked (batch_op ops (Batch_Merge cf key value) count_merges)"

definition SetReadTimestampForValidation :: "TxnTimestamp \<Rightarrow> ('b, 'c) PTxn \<Rightarrow> Status \<times> ('b, 'c) PTxn" where
  "SetReadTimestampForValidation ts t =
     (if read_timestamp t < kMaxTxnTimestamp \<and> ts < read_timestamp t
      then (InvalidArgument_msg ''Cannot decrease read timestamp for validation'' '''', t)
      else (OK, t\<lparr>read_timestamp := ts\<rparr>))"

definition SetCommitTimestamp :: "TxnTimestamp \<Rightarrow> ('b, 'c) PTxn \<Rightarrow> Status \<times> ('b, 'c) PTxn" where
  "SetCommitTimestamp ts t =
     (if read_timestamp t < kMaxTxnTimestamp \<and> ts \<le> read_timestamp t
      then (InvalidArgument_msg ''Cannot commit at timestamp smaller than or equal to read timestamp'' '''', t)
      else (OK, t\<lparr>commit_timestamp := ts\<rparr>))"

end
