(* ===== verification/Save_Points.thy ===== *)
theory Save_Points
  imports Txn_Base
begin

text \<open>
  What save points promise. The specification keeps, for every save point, the whole state to return
  to: how often each key was requested, the snapshot and the counters. The code keeps only what was
  tracked since, and subtracts. The refinement holds for every sequence of fewer than \<open>2 ^ 32 - 1\<close>
  operations, the bound of the 32-bit request counts.
\<close>

section \<open>Specification\<close>

type_synonym txn_nums = "Snapshot option \<times> bool \<times> nat option \<times> u64 \<times> u64 \<times> u64"
type_synonym txn_counts = "ColumnFamilyId \<Rightarrow> string \<Rightarrow> nat \<times> nat"
type_synonym spec_txn = "(txn_counts \<times> txn_nums) \<times> (txn_counts \<times> txn_nums) list"

datatype tb_op =
    Op_Track ColumnFamilyId string SequenceNumber bool bool
  | Op_Undo ColumnFamilyId string
  | Op_Count op_counter
  | Op_SetSnapshot "Snapshot option"
  | Op_SnapshotOnNext "nat option"
  | Op_SetSavePoint
  | Op_Rollback
  | Op_Pop
  | Op_Clear

definition add_request :: "bool \<Rightarrow> nat \<times> nat \<Rightarrow> nat \<times> nat" where
  "add_request read_only = (\<lambda>(r, w). if read_only then (r + 1, w) else (r, w + 1))"

fun count_op :: "op_counter \<Rightarrow> txn_nums \<Rightarrow> txn_nums" where
  "count_op count_puts (s, b, n, p, d, m) = (s, b, n, p + 1, d, m)"
| "count_op count_deletes (s, b, n, p, d, m) = (s, b, n, p, d + 1, m)"
| "count_op count_merges (s, b, n, p, d, m) = (s, b, n, p, d, m + 1)"

fun spec_step :: "tb_op \<Rightarrow> spec_txn \<Rightarrow> spec_txn" where
  "spec_step (Op_Track cf k seq ro ex) ((c, n), st) = ((c(cf := (c cf)(k := add_request ro (c cf k))), n), st)"
| "spec_step (Op_Undo cf k) ((c, n), st) =
     (if fst (c cf k) > (case st of [] \<Rightarrow> 0 | (c', _) # _ \<Rightarrow> fst (c' cf k))
      then ((c(cf := (c cf)(k := (fst (c cf k) - 1, snd (c cf k)))), n), st) else ((c, n), st))"
| "spec_step (Op_Count counter) ((c, n), st) = ((c, count_op counter n), st)"
| "spec_step (Op_SetSnapshot s) ((c, (_, _, _, nums)), st) = ((c, (s, False, None, nums)), st)"
| "spec_step (Op_SnapshotOnNext notifier) ((c, (s, _, _, nums)), st) = ((c, (s, True, notifier, nums)), st)"
| "spec_step Op_SetSavePoint (cur, st) = (cur, cur # st)"
| "spec_step Op_Rollback (cur, st) = (case st of [] \<Rightarrow> (cur, st) | saved # st \<Rightarrow> (saved, st))"
| "spec_step Op_Pop (cur, st) = (cur, tl st)"
| "spec_step Op_Clear ((c, (s, b, n, _)), st) = ((\<lambda>_ _. (0, 0), (s, b, n, 0, 0, 0)), [])"

section \<open>The code\<close>

fun tb_step ::
  "('b, 'c, 'd) db_ops \<Rightarrow> tb_op \<Rightarrow> ('b, 'c, 't) TransactionBase_scheme \<Rightarrow> ('b, 'c, 't) TransactionBase_scheme option" where
  "tb_step ops (Op_Track cf k seq ro ex) t = Some (TrackKey cf k seq ro ex t)"
| "tb_step ops (Op_Undo cf k) t = Some (snd (undo_tracking cf k t))"
| "tb_step ops (Op_Count counter) t = Some (bump counter t)"
| "tb_step ops (Op_SetSnapshot s) t = Some (SetSnapshotInternal s t)"
| "tb_step ops (Op_SnapshotOnNext n) t = Some (SetSnapshotOnNextOperation n t)"
| "tb_step ops Op_SetSavePoint t = Some (SetSavePoint ops t)"
| "tb_step ops Op_Rollback t = map_option snd (TxnBase_RollbackToSavePoint ops t)"
| "tb_step ops Op_Pop t = Some (snd (PopSavePoint ops t))"
| "tb_step ops Op_Clear t = Some (TxnBase_Clear ops t)"

fun tb_run ::
  "('b, 'c, 'd) db_ops \<Rightarrow> tb_op list \<Rightarrow> ('b, 'c, 't) TransactionBase_scheme \<Rightarrow> ('b, 'c, 't) TransactionBase_scheme option" where
  "tb_run ops [] t = Some t"
| "tb_run ops (p # ps) t = Option.bind (tb_step ops p t) (tb_run ops ps)"

definition counts_of :: "TrackedKeys \<Rightarrow> txn_counts" where
  "counts_of locks cf k = (reads_of locks cf k, writes_of locks cf k)"

definition minus_counts :: "txn_counts \<Rightarrow> TrackedKeys \<Rightarrow> txn_counts" where
  "minus_counts c locks cf k = (fst (c cf k) - reads_of locks cf k, snd (c cf k) - writes_of locks cf k)"

definition nums_of :: "('b, 'c, 't) TransactionBase_scheme \<Rightarrow> txn_nums" where
  "nums_of t = (snapshot t, snapshot_needed t, snapshot_notifier t, num_puts t, num_deletes t, num_merges t)"

definition sp_nums_of :: "SavePoint \<Rightarrow> txn_nums" where
  "sp_nums_of sp = (sp_snapshot sp, sp_snapshot_needed sp, sp_snapshot_notifier sp, sp_num_puts sp,
     sp_num_deletes sp, sp_num_merges sp)"

fun saved_states :: "txn_counts \<Rightarrow> SavePoint list \<Rightarrow> (txn_counts \<times> txn_nums) list" where
  "saved_states c [] = []"
| "saved_states c (sp # sps) =
     (let c = minus_counts c (new_locks sp) in (c, sp_nums_of sp) # saved_states c sps)"

definition abs_txn :: "('b, 'c, 't) TransactionBase_scheme \<Rightarrow> spec_txn" where
  "abs_txn t = ((counts_of (tracked_locks t), nums_of t), saved_states (counts_of (tracked_locks t)) (save_points t))"

section \<open>Invariant\<close>

definition sp_reads :: "SavePoint list \<Rightarrow> ColumnFamilyId \<Rightarrow> string \<Rightarrow> nat" where
  "sp_reads sps cf k = sum_list (map (\<lambda>sp. reads_of (new_locks sp) cf k) sps)"

definition sp_writes :: "SavePoint list \<Rightarrow> ColumnFamilyId \<Rightarrow> string \<Rightarrow> nat" where
  "sp_writes sps cf k = sum_list (map (\<lambda>sp. writes_of (new_locks sp) cf k) sps)"

definition tb_inv :: "('b, 'c, 't) TransactionBase_scheme \<Rightarrow> bool" where
  "tb_inv t \<longleftrightarrow> trk_inv (tracked_locks t) \<and> (\<forall>sp\<in>set (save_points t). trk_compact (new_locks sp)) \<and>
     (\<forall>cf k. sp_reads (save_points t) cf k \<le> reads_of (tracked_locks t) cf k \<and>
             sp_writes (save_points t) cf k \<le> writes_of (tracked_locks t) cf k)"

lemma sp_sums [simp]:
  "sp_reads [] cf k = 0" "sp_reads (sp # sps) cf k = reads_of (new_locks sp) cf k + sp_reads sps cf k"
  "sp_writes [] cf k = 0" "sp_writes (sp # sps) cf k = writes_of (new_locks sp) cf k + sp_writes sps cf k"
  by (simp_all add: sp_reads_def sp_writes_def)

lemma counts_lt: "reads_of t cf k < 2 ^ 32" "writes_of t cf k < 2 ^ 32"
  using unsigned_less [where 'a = nat and 'b = 32]
  by (simp_all add: reads_of_def writes_of_def split: option.splits)

lemma tb_inv_le:
  assumes "tb_inv t" "save_points t = sp # sps"
  shows "reads_of (new_locks sp) cf k + sp_reads sps cf k \<le> reads_of (tracked_locks t) cf k"
    and "writes_of (new_locks sp) cf k + sp_writes sps cf k \<le> writes_of (tracked_locks t) cf k"
    and "trk_compact (new_locks sp)" "counts_le (new_locks sp) (tracked_locks t)"
proof -
  have "\<forall>cf k. reads_of (new_locks sp) cf k + sp_reads sps cf k \<le> reads_of (tracked_locks t) cf k \<and>
      writes_of (new_locks sp) cf k + sp_writes sps cf k \<le> writes_of (tracked_locks t) cf k"
    and "trk_compact (new_locks sp)"
    using assms by (simp_all add: tb_inv_def)
  then show "reads_of (new_locks sp) cf k + sp_reads sps cf k \<le> reads_of (tracked_locks t) cf k"
    and "writes_of (new_locks sp) cf k + sp_writes sps cf k \<le> writes_of (tracked_locks t) cf k"
    and "trk_compact (new_locks sp)" "counts_le (new_locks sp) (tracked_locks t)"
    unfolding counts_le_def by (auto intro: order_trans [OF le_add1])
qed

section \<open>Simulation of the single operations\<close>

lemma counts_of_Track:
  "room_for locks 1 \<Longrightarrow> counts_of (Track locks r) =
     (counts_of locks)(plr_column_family_id r := (counts_of locks (plr_column_family_id r))
        (plr_key r := add_request (plr_read_only r) (counts_of locks (plr_column_family_id r) (plr_key r))))"
  by (intro ext) (simp add: counts_of_def add_request_def reads_of_Track writes_of_Track)

lemma minus_counts_eqI:
  assumes "\<And>cf k. fst (c cf k) - reads_of s cf k = fst (c' cf k) - reads_of s' cf k"
    and "\<And>cf k. snd (c cf k) - writes_of s cf k = snd (c' cf k) - writes_of s' cf k"
  shows "minus_counts c s = minus_counts c' s'"
  using assms by (intro ext) (simp add: minus_counts_def)

lemma step_Track:
  assumes inv: "tb_inv t" and room: "room_for (tracked_locks t) 1"
  shows "tb_inv (TrackKey cf k seq ro ex t)"
    and "abs_txn (TrackKey cf k seq ro ex t) = spec_step (Op_Track cf k seq ro ex) (abs_txn t)"
proof -
  define r where "r = \<lparr>plr_column_family_id = cf, plr_key = k, plr_seq = seq, plr_read_only = ro, plr_exclusive = ex\<rparr>"
  let ?L = "tracked_locks t"
  have r: "plr_column_family_id r = cf" "plr_key r = k" "plr_read_only r = ro" by (simp_all add: r_def)
  have L: "trk_inv (Track ?L r)" using inv by (simp add: tb_inv_def trk_inv_Track [OF _ room])
  note cnt = reads_of_Track [OF room, of r, unfolded r] writes_of_Track [OF room, of r, unfolded r]
  note cL = counts_of_Track [OF room, of r, unfolded r]
  have both: "tb_inv (TrackKey cf k seq ro ex t) \<and>
    abs_txn (TrackKey cf k seq ro ex t) = spec_step (Op_Track cf k seq ro ex) (abs_txn t)"
  proof (cases "save_points t")
    case Nil
    with L cL show ?thesis
      by (simp add: TrackKey_def tb_inv_def abs_txn_def nums_of_def flip: r_def)
  next
    case (Cons sp sps)
    note le = tb_inv_le [OF inv Cons]
    have rsp: "room_for (new_locks sp) 1"
      using le(4) room unfolding room_for_def counts_le_def by (meson add_le_mono1 le_less_trans)
    note csp = reads_of_Track [OF rsp, of r, unfolded r] writes_of_Track [OF rsp, of r, unfolded r]
    have mc: "minus_counts (counts_of (Track ?L r)) (Track (new_locks sp) r) = minus_counts (counts_of ?L) (new_locks sp)"
      by (rule minus_counts_eqI) (simp_all add: counts_of_def cnt csp)
    have "tb_inv (TrackKey cf k seq ro ex t)"
      using inv L le(1,2) trk_compact_Track [OF le(3) rsp]
      by (simp add: TrackKey_def tb_inv_def Cons cnt csp flip: r_def)
    moreover have "abs_txn (TrackKey cf k seq ro ex t) = spec_step (Op_Track cf k seq ro ex) (abs_txn t)"
      using mc cL by (simp add: TrackKey_def abs_txn_def nums_of_def sp_nums_of_def Cons Let_def flip: r_def)
    ultimately show ?thesis ..
  qed
  then show "tb_inv (TrackKey cf k seq ro ex t)"
    and "abs_txn (TrackKey cf k seq ro ex t) = spec_step (Op_Track cf k seq ro ex) (abs_txn t)" by simp_all
qed

lemma untrack_read_simps [simp]:
  "plr_column_family_id (untrack_read cf k) = cf" "plr_key (untrack_read cf k) = k" "plr_read_only (untrack_read cf k)"
  by (simp_all add: untrack_read_def)

lemma counts_of_Untrack:
  "counts_of (snd (Untrack locks (untrack_read cf k))) =
     (counts_of locks)(cf := (counts_of locks cf)(k := (reads_of locks cf k - 1, writes_of locks cf k)))"
  by (intro ext) (simp add: counts_of_def Untrack_counts)

lemma counts_of_idem: "reads_of locks cf k = 0 \<Longrightarrow>
    (counts_of locks)(cf := (counts_of locks cf)(k := (0, writes_of locks cf k))) = counts_of locks"
  by (intro ext) (simp add: counts_of_def)

lemma step_Undo_save_point:
  assumes inv: "tb_inv t" and Cons: "save_points t = sp # sps"
  shows "tb_inv (snd (undo_tracking cf k t)) \<and>
    abs_txn (snd (undo_tracking cf k t)) = spec_step (Op_Undo cf k) (abs_txn t)"
proof -
  let ?L = "tracked_locks t" and ?r = "untrack_read cf k"
  have L: "trk_inv ?L" using inv by (simp add: tb_inv_def)
  note le = tb_inv_le [OF inv Cons]
  let ?S = "new_locks sp"
  have S: "trk_inv ?S" using le(3) by (simp add: trk_compact_def)
  note st = Untrack_read_tracked [OF S, of ?r, simplified]
  have compact: "trk_compact (snd (Untrack ?S ?r))" by (rule Untrack_compact [OF le(3)])
  have gt: "fst (counts_of ?L cf k) > fst (minus_counts (counts_of ?L) ?S cf k) \<longleftrightarrow> 0 < reads_of ?S cf k"
    using le(1) [of cf k] by (simp add: counts_of_def minus_counts_def) arith
  show ?thesis
  proof (cases "0 < reads_of ?S cf k")
    case True
    have mc: "minus_counts (counts_of (snd (Untrack ?L ?r))) (snd (Untrack ?S ?r)) = minus_counts (counts_of ?L) ?S"
      using le(1) [of cf k] True by (intro minus_counts_eqI) (auto simp: counts_of_def Untrack_counts)
    have t': "snd (undo_tracking cf k t) =
        t\<lparr>save_points := sp\<lparr>new_locks := snd (Untrack ?S ?r)\<rparr> # sps, tracked_locks := snd (Untrack ?L ?r)\<rparr>"
      using True st by (simp add: undo_tracking_def Cons Let_def split_beta)
    have "reads_of (snd (Untrack ?S ?r)) cf' k' + sp_reads sps cf' k' \<le> reads_of (snd (Untrack ?L ?r)) cf' k'" for cf' k'
      using le(1) [of cf' k'] True by (auto simp: Untrack_counts)
    then have "tb_inv (snd (undo_tracking cf k t))"
      using inv compact le(2) Untrack_inv [OF L] unfolding t' by (simp add: tb_inv_def Cons Untrack_counts)
    moreover have "abs_txn (snd (undo_tracking cf k t)) = spec_step (Op_Undo cf k) (abs_txn t)"
      using gt True mc counts_of_Untrack [of ?L cf k] unfolding t'
      by (simp add: abs_txn_def nums_of_def sp_nums_of_def Cons Let_def) (simp add: counts_of_def)
    ultimately show ?thesis ..
  next
    case False
    then have mc: "minus_counts (counts_of ?L) (snd (Untrack ?S ?r)) = minus_counts (counts_of ?L) ?S"
      by (intro minus_counts_eqI) (auto simp: counts_of_def Untrack_counts)
    have t': "snd (undo_tracking cf k t) = t\<lparr>save_points := sp\<lparr>new_locks := snd (Untrack ?S ?r)\<rparr> # sps\<rparr>"
      using False st by (simp add: undo_tracking_def Cons Let_def split_beta)
    have "reads_of (snd (Untrack ?S ?r)) cf' k' + sp_reads sps cf' k' \<le> reads_of ?L cf' k'" for cf' k'
      using le(1) [of cf' k'] by (auto simp: Untrack_counts)
    then have "tb_inv (snd (undo_tracking cf k t))"
      using inv compact le(2) unfolding t' by (simp add: tb_inv_def Cons Untrack_counts)
    moreover have "abs_txn (snd (undo_tracking cf k t)) = spec_step (Op_Undo cf k) (abs_txn t)"
      using gt False mc unfolding t' by (simp add: abs_txn_def nums_of_def sp_nums_of_def Cons Let_def)
    ultimately show ?thesis ..
  qed
qed

lemma step_Undo:
  assumes inv: "tb_inv t"
  shows "tb_inv (snd (undo_tracking cf k t))"
    and "abs_txn (snd (undo_tracking cf k t)) = spec_step (Op_Undo cf k) (abs_txn t)"
proof -
  let ?L = "tracked_locks t" and ?r = "untrack_read cf k"
  have L: "trk_inv ?L" using inv by (simp add: tb_inv_def)
  have both: "tb_inv (snd (undo_tracking cf k t)) \<and> abs_txn (snd (undo_tracking cf k t)) = spec_step (Op_Undo cf k) (abs_txn t)"
  proof (cases "save_points t")
    case Nil
    then show ?thesis
      using L counts_of_Untrack [of ?L cf k] counts_of_idem [of ?L cf k]
      by (auto simp: undo_tracking_def tb_inv_def abs_txn_def nums_of_def counts_of_def Let_def
          split_beta Untrack_inv simp flip: counts_of_def)
        (simp_all add: counts_of_def)
  next
    case (Cons sp sps)
    then show ?thesis by (rule step_Undo_save_point [OF inv])
  qed
  then show "tb_inv (snd (undo_tracking cf k t))"
    and "abs_txn (snd (undo_tracking cf k t)) = spec_step (Op_Undo cf k) (abs_txn t)" by simp_all
qed


lemma step_Rollback:
  assumes inv: "tb_inv t"
  shows "\<exists>s t'. TxnBase_RollbackToSavePoint ops t = Some (s, t') \<and> tb_inv t' \<and>
    abs_txn t' = spec_step Op_Rollback (abs_txn t)"
proof (cases "save_points t")
  case Nil
  with inv show ?thesis by (simp add: TxnBase_RollbackToSavePoint_def abs_txn_def)
next
  case (Cons sp sps)
  note le = tb_inv_le [OF inv Cons]
  have L: "trk_inv (tracked_locks t)" and sps: "\<forall>sp\<in>set sps. trk_compact (new_locks sp)"
    using inv by (simp_all add: tb_inv_def Cons)
  obtain u where u: "Subtract (tracked_locks t) (new_locks sp) = Some u" "trk_inv u"
    "\<forall>cf k. reads_of u cf k = reads_of (tracked_locks t) cf k - reads_of (new_locks sp) cf k \<and>
        writes_of u cf k = writes_of (tracked_locks t) cf k - writes_of (new_locks sp) cf k"
    using Subtract_counts [OF L le(3,4)] by blast
  have c: "counts_of u = minus_counts (counts_of (tracked_locks t)) (new_locks sp)"
    using u(3) by (intro ext) (simp add: counts_of_def minus_counts_def)
  have "sp_reads sps cf k \<le> reads_of u cf k \<and> sp_writes sps cf k \<le> writes_of u cf k" for cf k
    using le(1,2) [of cf k] u(3) by simp arith
  then show ?thesis
    using u(1,2) sps by (auto simp: TxnBase_RollbackToSavePoint_def Cons Let_def tb_inv_def abs_txn_def
        nums_of_def sp_nums_of_def c split: prod.splits)
qed

lemma step_Pop:
  assumes inv: "tb_inv t"
  shows "tb_inv (snd (PopSavePoint ops t))"
    and "abs_txn (snd (PopSavePoint ops t)) = spec_step Op_Pop (abs_txn t)"
proof -
  have both: "tb_inv (snd (PopSavePoint ops t)) \<and> abs_txn (snd (PopSavePoint ops t)) = spec_step Op_Pop (abs_txn t)"
  proof (cases "save_points t" rule: remdups_adj.cases)
    case 1
    with inv show ?thesis by (simp add: PopSavePoint_def abs_txn_def)
  next
    case (2 sp)
    with inv show ?thesis
      by (simp add: PopSavePoint_def abs_txn_def tb_inv_def nums_of_def Let_def split_beta)
  next
    case (3 sp sp2 sps)
    note le = tb_inv_le [OF inv 3]
    have c2: "trk_compact (new_locks sp2)" using inv by (simp add: tb_inv_def 3)
    have "reads_of (new_locks sp2) cf k + reads_of (new_locks sp) cf k < 2 ^ 32 \<and>
        writes_of (new_locks sp2) cf k + writes_of (new_locks sp) cf k < 2 ^ 32" for cf k
      using le(1,2) [of cf k] counts_lt [of "tracked_locks t" cf k] by simp
    then have fit: "counts_fit (new_locks sp2) (new_locks sp)" by (simp add: counts_fit_def)
    note m = Tracker_Merge_counts [OF c2 le(3) fit]
    have mc: "minus_counts (counts_of (tracked_locks t)) (Tracker_Merge (new_locks sp2) (new_locks sp)) =
        minus_counts (minus_counts (counts_of (tracked_locks t)) (new_locks sp)) (new_locks sp2)"
      by (rule minus_counts_eqI) (simp_all add: minus_counts_def m)
    show ?thesis
      using inv m(1) le(1,2) mc
      by (simp add: PopSavePoint_def abs_txn_def tb_inv_def nums_of_def sp_nums_of_def 3 Let_def split_beta m add.commute add.left_commute)
  qed
  then show "tb_inv (snd (PopSavePoint ops t))"
    and "abs_txn (snd (PopSavePoint ops t)) = spec_step Op_Pop (abs_txn t)" by simp_all
qed

lemma new_tracker_counts [simp]:
  "reads_of PointLockTracker_new cf k = 0" "writes_of PointLockTracker_new cf k = 0" "trk_compact PointLockTracker_new"
  by (rule lt.new_reads lt.new_writes lt.new_compact)+

lemma counts_of_new [simp]: "counts_of PointLockTracker_new = (\<lambda>_ _. (0, 0))"
  by (intro ext) (simp add: counts_of_def)

lemma step_SetSavePoint:
  assumes inv: "tb_inv t"
  shows "tb_inv (SetSavePoint ops t)" and "abs_txn (SetSavePoint ops t) = spec_step Op_SetSavePoint (abs_txn t)"
proof -
  have "minus_counts c PointLockTracker_new = c" for c by (intro ext) (simp add: minus_counts_def)
  then show "abs_txn (SetSavePoint ops t) = spec_step Op_SetSavePoint (abs_txn t)"
    by (simp add: SetSavePoint_def SavePoint_new_def abs_txn_def nums_of_def sp_nums_of_def Let_def)
  show "tb_inv (SetSavePoint ops t)"
    using inv by (simp add: SetSavePoint_def SavePoint_new_def tb_inv_def)
qed

lemma step_Clear:
  shows "tb_inv (TxnBase_Clear ops t)" and "abs_txn (TxnBase_Clear ops t) = spec_step Op_Clear (abs_txn t)"
proof -
  have "trk_inv PointLockTracker_new" by (rule lt.compact_inv) simp
  then show "tb_inv (TxnBase_Clear ops t)" by (simp add: tb_inv_def)
  show "abs_txn (TxnBase_Clear ops t) = spec_step Op_Clear (abs_txn t)"
    by (simp add: abs_txn_def nums_of_def)
qed

lemma step_other:
  assumes "tb_inv t"
  shows "tb_inv (bump counter t)" "abs_txn (bump counter t) = spec_step (Op_Count counter) (abs_txn t)"
    "tb_inv (SetSnapshotInternal s t)" "abs_txn (SetSnapshotInternal s t) = spec_step (Op_SetSnapshot s) (abs_txn t)"
    "tb_inv (SetSnapshotOnNextOperation n t)"
    "abs_txn (SetSnapshotOnNextOperation n t) = spec_step (Op_SnapshotOnNext n) (abs_txn t)"
  using assms
  by (cases counter; simp add: tb_inv_def abs_txn_def nums_of_def SetSnapshotInternal_def SetSnapshotOnNextOperation_def)+

section \<open>Sequences of operations\<close>

lemma tb_step_ok:
  assumes "tb_inv t" "room_for (tracked_locks t) 1"
  shows "\<exists>t'. tb_step ops p t = Some t' \<and> tb_inv t' \<and> abs_txn t' = spec_step p (abs_txn t)"
proof (cases p)
  case Op_Rollback
  with step_Rollback [OF assms(1), of ops] show ?thesis by auto
qed (simp_all add: step_Track [OF assms] assms step_Undo step_Pop step_SetSavePoint step_Clear step_other)

lemma abs_txn_parts:
  "fst (fst (abs_txn t)) = counts_of (tracked_locks t)" "snd (fst (abs_txn t)) = nums_of t"
  "snd (abs_txn t) = saved_states (counts_of (tracked_locks t)) (save_points t)"
  by (simp_all add: abs_txn_def)

lemma tb_step_counts:
  "fst (fst (fst (spec_step p (abs_txn t))) cf k) \<le> reads_of (tracked_locks t) cf k + 1 \<and>
   snd (fst (fst (spec_step p (abs_txn t))) cf k) \<le> writes_of (tracked_locks t) cf k + 1"
proof (cases p)
  case Op_Rollback
  then show ?thesis
    by (cases "save_points t") (simp_all add: abs_txn_def counts_of_def minus_counts_def Let_def le_SucI)
qed (simp_all add: abs_txn_def counts_of_def add_request_def nums_of_def le_SucI)

lemma tb_step_room:
  assumes "room_for (tracked_locks t) (Suc n)" "abs_txn t' = spec_step p (abs_txn t)"
  shows "room_for (tracked_locks t') n"
proof -
  have le: "reads_of (tracked_locks t') cf k \<le> reads_of (tracked_locks t) cf k + 1"
    "writes_of (tracked_locks t') cf k \<le> writes_of (tracked_locks t) cf k + 1" for cf k
    using tb_step_counts [of p t cf k, folded assms(2)] by (simp_all add: abs_txn_parts counts_of_def)
  have room: "reads_of (tracked_locks t) cf k + Suc n < 2 ^ 32" "writes_of (tracked_locks t) cf k + Suc n < 2 ^ 32" for cf k
    using assms(1) by (simp_all add: room_for_def)
  have "reads_of (tracked_locks t') cf k + n < 2 ^ 32 \<and> writes_of (tracked_locks t') cf k + n < 2 ^ 32" for cf k
    using le [of cf k] room [of cf k] by linarith
  then show ?thesis by (simp add: room_for_def)
qed

lemma room_for_mono: "room_for t n \<Longrightarrow> m \<le> n \<Longrightarrow> room_for t m"
  unfolding room_for_def by (meson add_le_cancel_left le_less_trans)

lemma tb_run_refines:
  assumes "tb_inv t" "room_for (tracked_locks t) (length ps)"
  shows "\<exists>t'. tb_run ops ps t = Some t' \<and> tb_inv t' \<and> abs_txn t' = fold spec_step ps (abs_txn t)"
  using assms
proof (induction ps arbitrary: t)
  case (Cons p ps)
  have "room_for (tracked_locks t) 1" by (rule room_for_mono [OF Cons.prems(2)]) simp
  from tb_step_ok [OF Cons.prems(1) this, of ops p] obtain t1 where t1: "tb_step ops p t = Some t1" "tb_inv t1"
    "abs_txn t1 = spec_step p (abs_txn t)" by blast
  have "room_for (tracked_locks t1) (length ps)"
    by (rule tb_step_room [OF _ t1(3)]) (use Cons.prems(2) in simp)
  from Cons.IH [OF t1(2) this] t1 show ?case by auto
qed simp

lemma new_txn:
  "tb_inv (TransactionBase_new ops now wo)" "room_for (tracked_locks (TransactionBase_new ops now wo)) n \<longleftrightarrow> n < 2 ^ 32"
  "abs_txn (TransactionBase_new ops now wo) = ((\<lambda>_ _. (0, 0), (None, False, None, 0, 0, 0)), [])"
proof -
  have "trk_inv PointLockTracker_new" by (rule lt.compact_inv) simp
  then show "tb_inv (TransactionBase_new ops now wo)"
    "room_for (tracked_locks (TransactionBase_new ops now wo)) n \<longleftrightarrow> n < 2 ^ 32"
    "abs_txn (TransactionBase_new ops now wo) = ((\<lambda>_ _. (0, 0), (None, False, None, 0, 0, 0)), [])"
    by (auto simp: TransactionBase_new_def InitWriteBatch_def tb_inv_def room_for_def abs_txn_def nums_of_def
        counts_of_def Let_def)
qed

text \<open>Sequences that close every save point they set, and no other, starting inside \<open>d\<close> save points.\<close>

fun closed :: "nat \<Rightarrow> tb_op list \<Rightarrow> bool" where
  "closed d [] = (d = 0)"
| "closed d (Op_SetSavePoint # ps) = closed (Suc d) ps"
| "closed d (Op_Rollback # ps) = (0 < d \<and> closed (d - 1) ps)"
| "closed d (Op_Pop # ps) = (0 < d \<and> closed (d - 1) ps)"
| "closed d (Op_Clear # ps) = False"
| "closed d (p # ps) = closed d ps"

lemma spec_step_stack:
  "p \<notin> {Op_SetSavePoint, Op_Rollback, Op_Pop, Op_Clear} \<Longrightarrow> snd (spec_step p (cur, st)) = st"
  by (cases p; cases cur; cases "snd cur") (simp_all split: list.splits)

lemma closed_other: "p \<notin> {Op_SetSavePoint, Op_Rollback, Op_Pop, Op_Clear} \<Longrightarrow> closed d (p # ps) = closed d ps"
  by (cases p) simp_all

lemma closed_stack: "closed (length up) ps \<Longrightarrow> snd (fold spec_step ps (cur, up @ st)) = st"
proof (induction ps arbitrary: cur up)
  case (Cons p ps)
  show ?case
  proof (cases "p \<in> {Op_SetSavePoint, Op_Rollback, Op_Pop, Op_Clear}")
    case False
    then have "closed (length up) ps" using Cons.prems by (simp add: closed_other)
    moreover obtain cur' where "spec_step p (cur, up @ st) = (cur', up @ st)"
      using spec_step_stack [OF False, of cur "up @ st"] by (cases "spec_step p (cur, up @ st)") simp
    ultimately show ?thesis using Cons.IH [of up cur'] by simp
  next
    case True
    then consider "p = Op_SetSavePoint" | x xs where "p = Op_Rollback \<or> p = Op_Pop" "up = x # xs"
      using Cons.prems by (cases up) auto
    then show ?thesis
    proof cases
      case 1
      with Cons.prems Cons.IH [of "cur # up" cur] show ?thesis by simp
    next
      case 2
      then show ?thesis using Cons.prems Cons.IH [of xs x] Cons.IH [of xs cur] by (elim disjE) simp_all
    qed
  qed
qed simp

section \<open>Properties\<close>

text \<open>
  C12: Save points refine their specification. For every sequence of tracking, undoing, counting,
  snapshot and save point operations on a new transaction, shorter than \<open>2 ^ 32\<close>, no operation
  runs into undefined behaviour, and the transaction represents the state that the specification,
  which saves whole states, reaches.
\<close>

theorem save_points_refine:
  assumes "length ps < 2 ^ 32"
  shows "\<exists>t. tb_run ops ps (TransactionBase_new ops now wo) = Some t \<and> tb_inv t \<and>
    abs_txn t = fold spec_step ps ((\<lambda>_ _. (0, 0), (None, False, None, 0, 0, 0)), [])"
  using tb_run_refines [of "TransactionBase_new ops now wo" ps ops] assms
  by (simp add: new_txn)

theorem save_points_refine_witness:
  "\<exists>t. tb_run list_db [Op_Track 0 ''a'' 3 False True, Op_SetSavePoint, Op_Track 0 ''a'' 4 True True, Op_Count count_puts, Op_Rollback]
      (TransactionBase_new list_db 0 WriteOptions_new) = Some t \<and> reads_of (tracked_locks t) 0 ''a'' = 0 \<and>
    writes_of (tracked_locks t) 0 ''a'' = 1 \<and> num_puts t = 0"
proof -
  let ?ps = "[Op_Track 0 ''a'' 3 False True, Op_SetSavePoint, Op_Track 0 ''a'' 4 True True, Op_Count count_puts, Op_Rollback]"
  obtain t where t: "tb_run list_db ?ps (TransactionBase_new list_db 0 WriteOptions_new) = Some t"
    "abs_txn t = fold spec_step ?ps ((\<lambda>_ _. (0, 0), (None, False, None, 0, 0, 0)), [])"
    using save_points_refine [of ?ps list_db 0 WriteOptions_new] by auto
  have "fst (fst (abs_txn t)) 0 ''a'' = (0, 1)" "snd (fst (abs_txn t)) = (None, False, None, 0, 0, 0)"
    unfolding t(2) by (simp_all add: add_request_def)
  with t(1) show ?thesis unfolding abs_txn_parts by (auto simp: counts_of_def nums_of_def)
qed

text \<open>
  C13: Rolling back restores the transaction. Whatever a transaction does after a save point, with
  nested save points that are rolled back or popped, rolling back to that save point restores the
  request counts of every key, the snapshot, the operation counters and the enclosing save points.
\<close>

theorem rollback_restores:
  assumes "tb_inv t" "room_for (tracked_locks t) (length ps + 2)" "closed 0 ps"
  shows "\<exists>t'. tb_run ops (Op_SetSavePoint # ps @ [Op_Rollback]) t = Some t' \<and> abs_txn t' = abs_txn t"
proof -
  have "fold spec_step (Op_SetSavePoint # ps @ [Op_Rollback]) (abs_txn t) = abs_txn t"
    using closed_stack [of "[]" ps "fst (abs_txn t)" "fst (abs_txn t) # snd (abs_txn t)"] assms(3)
    by (cases "abs_txn t"; cases "fold spec_step ps (fst (abs_txn t), fst (abs_txn t) # snd (abs_txn t))") simp
  then show ?thesis
    using tb_run_refines [of t "Op_SetSavePoint # ps @ [Op_Rollback]" ops] assms by auto
qed

theorem rollback_restores_witness:
  "\<exists>t'. tb_run list_db (Op_SetSavePoint # [Op_Track 1 ''k'' 7 False True, Op_SetSavePoint, Op_Count count_merges, Op_Pop] @ [Op_Rollback])
      (TransactionBase_new list_db 5 WriteOptions_new) = Some t' \<and>
    abs_txn t' = ((\<lambda>_ _. (0, 0), (None, False, None, 0, 0, 0)), [])"
  using rollback_restores [OF new_txn(1) [of list_db 5 WriteOptions_new], of "[Op_Track 1 ''k'' 7 False True, Op_SetSavePoint, Op_Count count_merges, Op_Pop]" list_db]
  by (simp add: new_txn)

end
