(* ===== verification/Lock_Properties.thy ===== *)
theory Lock_Properties
  imports Point_Lock_Manager
begin

text \<open>
  Properties of the lock table of \<open>Point_Lock_Manager\<close>: what a grant means and how long it lasts, how
  many locks there are, what unlocking a whole transaction does, that the stripes and the caches
  cannot be observed, and where the code departs from what its comments say.
\<close>

section \<open>Unlocking a transaction\<close>

lemma UnLock_cfs_ok:
  assumes "plm_ok hash m" "distinct cfs" "set cfs \<subseteq> dom (map_of (lock_maps m))"
    "\<And>cf. cf \<in> set cfs \<Longrightarrow> \<exists>keys. map_of tracker cf = Some keys \<and> alist_ok keys"
  shows "\<exists>m'. UnLock_cfs hash thread m txn tracker cfs = Some m' \<and> plm_ok hash m' \<and> lock_maps m' = lock_maps m \<and>
    (\<forall>cf key. plm_lock hash m' cf key =
       (if cf \<in> set cfs \<and> tracked_at tracker cf key \<noteq> None then release_opt txn (plm_lock hash m cf key)
        else plm_lock hash m cf key))"
  using assms
proof (induction cfs arbitrary: m)
  case (Cons cf cfs)
  obtain a where a: "map_of (lock_maps m) cf = Some a" using Cons.prems(3) by auto
  obtain keys where keys: "map_of tracker cf = Some keys" "alist_ok keys" using Cons.prems(4) [of cf] by auto
  obtain m1 where m1: "GetLockMap thread m cf = (Some a, m1)" "plm_ok hash m1" "lock_maps m1 = lock_maps m"
    "lock_map_heap m1 = lock_map_heap m" using GetLockMap_ok [OF Cons.prems(1), of thread cf] a by auto
  have "a < length (lock_map_heap m1)" "lm_ok hash (lock_map_heap m1 ! a)"
    using m1 a unfolding plm_ok_def by auto
  from unlock_cf_at [OF this(2), of "map fst keys" "max_num_locks m1" txn] keys(2)
  obtain lm where lm: "unlock_stripes (max_num_locks m1) txn (lock_map_heap m1 ! a)
      (keys_by_stripe hash (lock_map_heap m1 ! a) [] (map fst keys)) = Some lm" "lm_ok hash lm"
    "lock_at hash lm = (\<lambda>k. if k \<in> set (map fst keys) then release_opt txn (lock_at hash (lock_map_heap m1 ! a) k)
       else lock_at hash (lock_map_heap m1 ! a) k)" by blast
  define m2 where "m2 = m1\<lparr>lock_map_heap := (lock_map_heap m1)[a := lm]\<rparr>"
  note m2 = plm_put_lock_map [OF m1(2) _ lm(2), of cf a, folded m2_def]
  have am: "map_of (lock_maps m1) cf = Some a" using a m1(3) by simp
  have old: "plm_lock hash m1 = plm_lock hash m" "plm_lock hash m cf = lock_at hash (lock_map_heap m1 ! a)"
    using m1 a by (auto simp: plm_lock_def fun_eq_iff)
  have ok2: "plm_ok hash m2" "lock_maps m2 = lock_maps m" using m2(1) [OF am] m1(3) by (simp_all add: m2_def)
  obtain m3 where m3: "UnLock_cfs hash thread m2 txn tracker cfs = Some m3" "plm_ok hash m3" "lock_maps m3 = lock_maps m"
    "\<forall>cf key. plm_lock hash m3 cf key =
       (if cf \<in> set cfs \<and> tracked_at tracker cf key \<noteq> None then release_opt txn (plm_lock hash m2 cf key)
        else plm_lock hash m2 cf key)"
    using Cons.IH [OF ok2(1)] Cons.prems ok2(2) by auto
  have "UnLock_cfs hash thread m txn tracker (cf # cfs) = Some m3"
    using m1(1) keys(1) lm(1) m3(1) by (simp add: GetKeyIterator_def m2_def)
  moreover have "plm_lock hash m3 cf' key =
       (if cf' \<in> set (cf # cfs) \<and> tracked_at tracker cf' key \<noteq> None then release_opt txn (plm_lock hash m cf' key)
        else plm_lock hash m cf' key)" for cf' key
  proof (cases "cf' = cf")
    case True
    have "key \<in> set (map fst keys) \<longleftrightarrow> tracked_at tracker cf key \<noteq> None"
      by (simp add: tracked_at_cf [OF keys(1)] map_of_eq_None_iff del: not_Some_eq not_None_eq)
    moreover have "cf' \<notin> set cfs" using Cons.prems(2) True by simp
    ultimately show ?thesis using True m3(4) m2(2) [OF am, of cf] lm(3) by (simp add: old(2))
  next
    case False
    then show ?thesis using m3(4) m2(2) [OF am, of cf'] by (auto simp: old(1))
  qed
  ultimately show ?case using m3(2,3) by (intro exI [of _ m3]) blast
qed simp

lemma UnLock_tracker_ok:
  assumes "plm_ok hash m" "alist_ok tracker" "\<And>cf keys. map_of tracker cf = Some keys \<Longrightarrow> alist_ok keys"
    "set (map fst tracker) \<subseteq> set (map fst (lock_maps m))"
  shows "\<exists>m'. UnLock_tracker hash thread m txn tracker = Some m' \<and> plm_ok hash m' \<and> lock_maps m' = lock_maps m \<and>
    (\<forall>cf key. plm_lock hash m' cf key =
       (if tracked_at tracker cf key \<noteq> None then release_opt txn (plm_lock hash m cf key)
        else plm_lock hash m cf key))"
proof -
  have cf: "cf \<in> set (map fst tracker)" if "tracked_at tracker cf key \<noteq> None" for cf key
    using that by (metis map_of_eq_None_iff set_map tracked_at_fresh)
  have keys: "\<exists>keys. map_of tracker cf = Some keys \<and> alist_ok keys" if "cf \<in> set (map fst tracker)" for cf
  proof -
    from that obtain keys where "map_of tracker cf = Some keys" by (metis map_of_eq_None_iff not_Some_eq set_map)
    with assms(3) show ?thesis by blast
  qed
  have d: "distinct (map fst tracker)" "set (map fst tracker) \<subseteq> dom (map_of (lock_maps m))"
    using assms(2,4) by (auto simp: dom_map_of_conv_image_fst)
  obtain m' where m': "UnLock_cfs hash thread m txn tracker (map fst tracker) = Some m'" "plm_ok hash m'" "lock_maps m' = lock_maps m"
    "\<forall>cf key. plm_lock hash m' cf key =
       (if cf \<in> set (map fst tracker) \<and> tracked_at tracker cf key \<noteq> None then release_opt txn (plm_lock hash m cf key)
        else plm_lock hash m cf key)"
    using UnLock_cfs_ok [OF assms(1) d keys] by blast
  have "plm_lock hash m' cf key =
       (if tracked_at tracker cf key \<noteq> None then release_opt txn (plm_lock hash m cf key)
        else plm_lock hash m cf key)" for cf key
    using m'(4) cf [of cf key] by (cases "tracked_at tracker cf key") simp_all
  with m'(1-3) show ?thesis
    by (intro exI [of _ m']) (simp add: UnLock_tracker_def GetColumnFamilyIterator_def)
qed

section \<open>Mutual exclusion\<close>

text \<open>
  C6: The lock table is safe. In every state a lock map reaches from empty, by any lock requests and
  releases of any transactions in any order and with any changes of the transaction database in
  between, every key is in the stripe its hash selects, every locked key has a holder, and a key locked
  in exclusive mode has exactly one.
\<close>

theorem lock_table_invariant:
  assumes "(lm_step hash steal max_locks A R)\<^sup>*\<^sup>* (LockMap_new n, x0) (lm, x)" "0 < n"
  shows "lm_ok hash lm \<and>
    (\<forall>key li. lock_at hash lm key = Some li \<longrightarrow>
       txn_ids li \<noteq> [] \<and> (exclusive li \<longrightarrow> (\<exists>txn. txn_ids li = [txn])))"
proof -
  have ok: "lm_ok hash lm"
    using lm_step_table_invariant [OF assms(1) lm_ok_new [OF assms(2)], of "\<lambda>_. True"] by simp
  have "txn_ids li \<noteq> [] \<and> (exclusive li \<longrightarrow> (\<exists>txn. txn_ids li = [txn]))" if "lock_at hash lm key = Some li" for key li
    using lock_at_info_ok [OF ok that] by (auto simp: info_ok_def length_Suc_conv)
  with ok show ?thesis by blast
qed

lemma one_grant:
  "\<exists>lm. (lm_step (\<lambda>_. 7) (\<lambda>_ (x :: unit). (True, x)) 0 (\<lambda>_. True) (\<lambda>_ _. True))\<^sup>*\<^sup>* (LockMap_new 4, ()) (lm, ()) \<and>
    lock_at (\<lambda>_. 7) lm ''k'' = Some (LockInfo_new 1 0 True)"
proof -
  let ?i = "GetStripe (\<lambda>_. 7) (LockMap_new 4) ''k''"
  have ok: "lm_ok (\<lambda>_. 7) (LockMap_new 4)" by (rule lm_ok_new) simp
  have none: "map_of (lock_map_stripes (LockMap_new 4) ! ?i) ''k'' = None"
    using lock_at_new [of 4 "\<lambda>_. 7"] by (simp add: lock_at_def fun_eq_iff)
  have "AcquireLocked (\<lambda>_ (x :: unit). (True, x)) 0 (LockMap_new 4) ?i ''k'' 0 (LockInfo_new 1 0 True) 0 [] () =
      (OK, put_key (LockMap_new 4) ?i ''k'' (LockInfo_new 1 0 True), 0, [], ())"
    by (simp add: AcquireLocked_def none)
  then have "lm_step (\<lambda>_. 7) (\<lambda>_ (x :: unit). (True, x)) 0 (\<lambda>_. True) (\<lambda>_ _. True) (LockMap_new 4, ())
      (put_key (LockMap_new 4) ?i ''k'' (LockInfo_new 1 0 True), ())"
    by (rule lm_step.acquire [rotated 2]) simp_all
  then have "(lm_step (\<lambda>_. 7) (\<lambda>_ (x :: unit). (True, x)) 0 (\<lambda>_. True) (\<lambda>_ _. True))\<^sup>*\<^sup>* (LockMap_new 4, ())
      (put_key (LockMap_new 4) ?i ''k'' (LockInfo_new 1 0 True), ())"
    by (rule r_into_rtranclp)
  moreover have "lock_at (\<lambda>_. 7) (put_key (LockMap_new 4) ?i ''k'' (LockInfo_new 1 0 True)) ''k'' =
      Some (LockInfo_new 1 0 True)"
    by (simp add: lock_at_put [OF ok refl])
  ultimately show ?thesis by blast
qed

theorem lock_table_invariant_witness:
  "\<exists>lm. (lm_step (\<lambda>_. 7) (\<lambda>_ (x :: unit). (True, x)) 0 (\<lambda>_. True) (\<lambda>_ _. True))\<^sup>*\<^sup>* (LockMap_new 4, ()) (lm, ()) \<and>
    lock_at (\<lambda>_. 7) lm ''k'' = Some (LockInfo_new 1 0 True) \<and> lm_ok (\<lambda>_. 7) lm"
proof -
  obtain lm where lm: "(lm_step (\<lambda>_. 7) (\<lambda>_ (x :: unit). (True, x)) 0 (\<lambda>_. True) (\<lambda>_ _. True))\<^sup>*\<^sup>* (LockMap_new 4, ()) (lm, ())"
    "lock_at (\<lambda>_. 7) lm ''k'' = Some (LockInfo_new 1 0 True)" using one_grant by blast
  from lock_table_invariant [OF lm(1)] lm show ?thesis by auto
qed

text \<open>
  C7: An exclusive lock that does not expire is kept. As long as its holder takes no step, no
  sequence of requests and releases by other transactions, whatever their expiration times, changes
  the entry of the key.
\<close>

theorem exclusive_lock_stable:
  assumes "(lm_step hash steal max_locks (\<lambda>txn. txn \<noteq> a) R)\<^sup>*\<^sup>* (lm0, x0) (lm, x)"
    and "lm_ok hash lm0" "lock_at hash lm0 key = Some \<lparr>exclusive = True, txn_ids = [a], expiration_time = 0\<rparr>"
  shows "lock_at hash lm key = Some \<lparr>exclusive = True, txn_ids = [a], expiration_time = 0\<rparr>"
proof -
  let ?li = "\<lparr>exclusive = True, txn_ids = [a], expiration_time = 0\<rparr>"
  have "lm_ok hash lm \<and> fst (table_of hash lm) key = Some ?li"
    using assms(1,2)
  proof (rule lm_step_table_invariant [where I = "\<lambda>T. fst T key = Some ?li"])
    show "fst (table_of hash lm0) key = Some ?li" using assms(3) by (simp add: table_of_def)
    show "fst T' key = Some ?li" if "txn \<noteq> a" "fst T key = Some ?li"
      "table_acquire steal max_locks T k now (LockInfo_new txn t ex) e ids y = (s, T', e', ids', y')"
      for T T' txn t ex k now e ids s e' ids' and y y' :: 'a
      by (rule table_acquire_other [OF that(3) single_new that(2), of a]) (use that(1) in \<open>simp_all add: LockInfo_new_def\<close>)
    show "fst (table_unlock max_locks T txn k) key = Some ?li" if "txn \<noteq> a" "fst T key = Some ?li" for T txn k
      by (rule table_unlock_other [OF that(2)]) (use that(1) in simp)
  qed
  then show ?thesis by (simp add: table_of_def)
qed

theorem exclusive_lock_stable_witness:
  "\<exists>lm lm'. lock_at (\<lambda>_. 7) lm ''k'' = Some \<lparr>exclusive = True, txn_ids = [1], expiration_time = 0\<rparr> \<and>
    lm' = UnLockKey 0 2 ''k'' (GetStripe (\<lambda>_. 7) lm ''k'') lm \<and>
    lock_at (\<lambda>_. 7) lm' ''k'' = Some \<lparr>exclusive = True, txn_ids = [1], expiration_time = 0\<rparr>"
proof -
  obtain lm where lm: "(lm_step (\<lambda>_. 7) (\<lambda>_ (x :: unit). (True, x)) 0 (\<lambda>_. True) (\<lambda>_ _. True))\<^sup>*\<^sup>* (LockMap_new 4, ()) (lm, ())"
    "lock_at (\<lambda>_. 7) lm ''k'' = Some (LockInfo_new 1 0 True)" using one_grant by blast
  have ok: "lm_ok (\<lambda>_. 7) lm"
    using lm_step_table_invariant [OF lm(1) lm_ok_new, of "\<lambda>_. True"] by simp
  have "lm_step (\<lambda>_. 7) (\<lambda>_ (x :: unit). (True, x)) 0 (\<lambda>txn. txn \<noteq> 1) (\<lambda>_ _. True) (lm, ())
      (UnLockKey 0 2 ''k'' (GetStripe (\<lambda>_. 7) lm ''k'') lm, ())"
    by (rule lm_step.unlock) simp
  then have "(lm_step (\<lambda>_. 7) (\<lambda>_ (x :: unit). (True, x)) 0 (\<lambda>txn. txn \<noteq> 1) (\<lambda>_ _. True))\<^sup>*\<^sup>* (lm, ())
      (UnLockKey 0 2 ''k'' (GetStripe (\<lambda>_. 7) lm ''k'') lm, ())"
    by (rule r_into_rtranclp)
  from exclusive_lock_stable [OF this ok] lm(2)
  show ?thesis by (auto simp: LockInfo_new_def)
qed

section \<open>The number of locks\<close>



text \<open>
  C21: Shared locks make the count too small. Releasing one holder of a key that others still hold
  takes one off \<open>lock_cnt\<close> while the same keys stay locked, so the limit on the number of locks is no
  longer enforced.
\<close>

theorem shared_unlock_undercounts:
  assumes "lm_ok hash lm" "lock_at hash lm key = Some li" "txn \<in> set (txn_ids li)" "1 < length (txn_ids li)"
    "0 < max_locks"
  shows "lock_cnt (UnLockKey max_locks txn key (GetStripe hash lm key) lm) = lock_cnt lm - 1 \<and>
    dom (lock_at hash (UnLockKey max_locks txn key (GetStripe hash lm key) lm)) = dom (lock_at hash lm)"
proof -
  let ?lm = "UnLockKey max_locks txn key (GetStripe hash lm key) lm"
  obtain j where "find_index (\<lambda>t. t = txn) (txn_ids li) = Some j" using assms(3) find_txn [of txn] by fastforce
  then obtain li' where "release txn li = Some li'" using assms(4) by (simp add: release_def)
  moreover have "(lock_at hash ?lm, lock_cnt ?lm) = table_unlock max_locks (lock_at hash lm, lock_cnt lm) txn key"
    using UnLockKey_table(1) [OF assms(1), of max_locks txn key] by (simp add: table_of_def)
  ultimately show ?thesis using assms(2,3,5) by (auto simp: table_unlock_def)
qed

theorem shared_unlock_undercounts_witness:
  "\<exists>lm li. lm_ok (\<lambda>_. 7) lm \<and> lock_at (\<lambda>_. 7) lm ''k'' = Some li \<and> txn_ids li = [1, 2] \<and>
    lock_cnt (UnLockKey 5 1 ''k'' (GetStripe (\<lambda>_. 7) lm ''k'') lm) = lock_cnt lm - 1"
proof -
  let ?li = "\<lparr>exclusive = False, txn_ids = [1, 2], expiration_time = 0\<rparr>"
  let ?lm = "put_key (LockMap_new 4) (GetStripe (\<lambda>_. 7) (LockMap_new 4) ''k'') ''k'' ?li"
  have new: "lm_ok (\<lambda>_. 7) (LockMap_new 4)" by (rule lm_ok_new) simp
  have ok: "lm_ok (\<lambda>_. 7) ?lm" by (rule lm_ok_put [OF new]) (simp add: info_ok_def)
  have at: "lock_at (\<lambda>_. 7) ?lm ''k'' = Some ?li" by (simp add: lock_at_put [OF new refl])
  from shared_unlock_undercounts [OF ok at, of 1 5]
  have "lock_cnt (UnLockKey 5 1 ''k'' (GetStripe (\<lambda>_. 7) ?lm ''k'') ?lm) = lock_cnt ?lm - 1" by simp
  with ok at show ?thesis by (intro exI [of _ ?lm] exI [of _ ?li]) simp
qed

section \<open>Expiration of shared locks\<close>



section \<open>Stripes and caches cannot be observed\<close>

text \<open>
  C14: The striped lock map refines a plain table. For any sequence of lock requests and releases, a
  lock map with any number of stripes and any hash gives the answers of one table from keys to locks
  with one counter (status, expiration hint and holders to wait for, each time), and ends in a state
  that represents the table's.
\<close>

theorem lock_map_refines_table:
  assumes "lm_ok hash lm" "list_all op_single ops"
  shows "run_table steal max_locks (table_of hash lm) x ops =
    (case run_ops hash steal max_locks lm x ops of (answers, lm', x') \<Rightarrow> (answers, table_of hash lm', x'))"
  using assms by (rule run_ops_table)

theorem lock_map_refines_table_witness:
  "run_table (\<lambda>_ (x :: unit). (True, x)) 5 (table_of (\<lambda>_. 7) (LockMap_new 4)) ()
      [Op_acquire ''k'' 0 (LockInfo_new 1 0 True) 0 [], Op_unlock 1 ''k''] =
    (case run_ops (\<lambda>_. 7) (\<lambda>_ (x :: unit). (True, x)) 5 (LockMap_new 4) ()
        [Op_acquire ''k'' 0 (LockInfo_new 1 0 True) 0 [], Op_unlock 1 ''k''] of
      (answers, lm', x') \<Rightarrow> (answers, table_of (\<lambda>_. 7) lm', x'))"
  by (rule lock_map_refines_table) (simp_all add: lm_ok_new)

inductive cf_step :: "PointLockManager \<Rightarrow> PointLockManager \<Rightarrow> bool" where
  add: "cf_step m (AddColumnFamily m cf)"
| remove: "cf_step m (RemoveColumnFamily m cf)"
| get: "cf_step m (snd (GetLockMap thread m cf))"
| locks: "length heap = length (lock_map_heap m) \<Longrightarrow> cf_step m (m\<lparr>lock_map_heap := heap\<rparr>)"



section \<open>Releasing and reporting\<close>



text \<open>
  C22: One dropped column family stops the release. If a tracker lists a column family that was dropped
  before the others, \<open>UnLock\<close> returns at once: no lock of any column family is released, also not those
  of the families that still exist.
\<close>

theorem UnLock_tracker_dropped_cf:
  assumes "plm_ok hash m" "map_of (lock_maps m) cf = None"
  shows "\<exists>m'. UnLock_tracker hash thread m txn ((cf, keys) # tracker) = Some m' \<and>
    plm_lock hash m' = plm_lock hash m"
proof -
  obtain m' where m': "GetLockMap thread m cf = (None, m')" "lock_maps m' = lock_maps m" "lock_map_heap m' = lock_map_heap m"
    using GetLockMap_ok [OF assms(1), of thread cf] assms(2) by auto
  then have "plm_lock hash m' = plm_lock hash m" by (simp add: plm_lock_def fun_eq_iff)
  with m'(1) show ?thesis by (simp add: UnLock_tracker_def GetColumnFamilyIterator_def)
qed

theorem UnLock_tracker_dropped_cf_witness:
  "\<exists>m'. UnLock_tracker (\<lambda>_. 7) 0 (AddColumnFamily (PointLockManager_new 16 0 5) 3) 1
      [(4, [(''a'', TrackedKeyInfo_new 1)]), (3, [(''k'', TrackedKeyInfo_new 1)])] = Some m' \<and>
    plm_lock (\<lambda>_. 7) m' = plm_lock (\<lambda>_. 7) (AddColumnFamily (PointLockManager_new 16 0 5) 3)"
  using UnLock_tracker_dropped_cf [OF plm_ok_Add [OF plm_ok_new [of 16 "\<lambda>_. 7" 0 5], of 3], of 4]
  by (auto simp: AddColumnFamily_def PointLockManager_new_def)

lemma set_GetPointLockStatus:
  "(cf, info) \<in> set (GetPointLockStatus m) \<longleftrightarrow>
    (\<exists>a s key li. cf \<in> set (map fst (lock_maps m)) \<and> map_of (lock_maps m) cf = Some a \<and>
       s \<in> set (lock_map_stripes (lock_map_heap m ! a)) \<and> (key, li) \<in> set s \<and>
       info = \<lparr>kli_key = key, kli_ids = txn_ids li, kli_exclusive = exclusive li\<rparr>)"
proof -
  define rep where "rep = (\<lambda>cf. case map_of (lock_maps m) cf of None \<Rightarrow> []
      | Some a \<Rightarrow> concat (map (map (\<lambda>(key, info). (cf, \<lparr>kli_key = key, kli_ids = txn_ids info, kli_exclusive = exclusive info\<rparr>)))
          (lock_map_stripes (lock_map_heap m ! a))))"
  have "set (GetPointLockStatus m) = (\<Union>cf\<in>set (map fst (lock_maps m)). set (rep cf))"
    by (simp add: GetPointLockStatus_def rep_def)
  moreover have "(cf, info) \<in> set (rep cf') \<longleftrightarrow> cf' = cf \<and> (\<exists>a s key li. map_of (lock_maps m) cf = Some a \<and>
       s \<in> set (lock_map_stripes (lock_map_heap m ! a)) \<and> (key, li) \<in> set s \<and>
       info = \<lparr>kli_key = key, kli_ids = txn_ids li, kli_exclusive = exclusive li\<rparr>)" for cf'
    by (cases "map_of (lock_maps m) cf'") (auto simp: rep_def intro!: bexI rev_image_eqI)
  ultimately show ?thesis by auto
qed

text \<open>
  C18: \<open>GetPointLockStatus\<close> reports exactly the locks: an entry is in its answer if and only if the key
  of that column family is locked, with these holders and this mode.
\<close>

theorem GetPointLockStatus_exact:
  assumes "plm_ok hash m"
  shows "(cf, \<lparr>kli_key = key, kli_ids = ids, kli_exclusive = ex\<rparr>) \<in> set (GetPointLockStatus m) \<longleftrightarrow>
    (\<exists>li. plm_lock hash m cf key = Some li \<and> txn_ids li = ids \<and> exclusive li = ex)"
proof (cases "map_of (lock_maps m) cf")
  case None
  then show ?thesis
    by (auto simp: GetPointLockStatus_def plm_lock_def split: option.splits)
next
  case (Some a)
  have lm: "lm_ok hash (lock_map_heap m ! a)" using assms Some unfolding plm_ok_def by blast
  let ?st = "lock_map_stripes (lock_map_heap m ! a)"
  have "cf \<in> set (map fst (lock_maps m))" using Some by (rule alist_fst_in)
  then have "(cf, \<lparr>kli_key = key, kli_ids = ids, kli_exclusive = ex\<rparr>) \<in> set (GetPointLockStatus m) \<longleftrightarrow>
      (\<exists>s li. s \<in> set ?st \<and> (key, li) \<in> set s \<and> txn_ids li = ids \<and> exclusive li = ex)"
    using Some by (simp add: set_GetPointLockStatus) blast
  also have "\<dots> \<longleftrightarrow> (\<exists>li. lock_at hash (lock_map_heap m ! a) key = Some li \<and> txn_ids li = ids \<and> exclusive li = ex)"
  proof -
    have "(\<exists>s \<in> set ?st. (key, li) \<in> set s) \<longleftrightarrow> lock_at hash (lock_map_heap m ! a) key = Some li" for li
    proof
      assume "\<exists>s \<in> set ?st. (key, li) \<in> set s"
      then obtain i where i: "i < length ?st" "(key, li) \<in> set (?st ! i)" by (metis in_set_conv_nth)
      then have "map_of (?st ! i) key = Some li" using lm_ok_stripe(1) [OF lm i(1)] by simp
      with lm_ok_stripe(2) [OF lm i(1) this] show "lock_at hash (lock_map_heap m ! a) key = Some li"
        by (simp add: lock_at_def)
    next
      assume "lock_at hash (lock_map_heap m ! a) key = Some li"
      then have "(key, li) \<in> set (?st ! GetStripe hash (lock_map_heap m ! a) key)"
        by (auto simp: lock_at_def dest: map_of_SomeD)
      with GetStripe_less [OF lm, of key] show "\<exists>s \<in> set ?st. (key, li) \<in> set s" by (meson nth_mem)
    qed
    then show ?thesis by blast
  qed
  finally show ?thesis using Some by (simp add: plm_lock_def)
qed

theorem GetPointLockStatus_exact_witness:
  "(3, \<lparr>kli_key = ''k'', kli_ids = [1], kli_exclusive = True\<rparr>) \<notin>
    set (GetPointLockStatus (AddColumnFamily (PointLockManager_new 16 0 5) 3))"
  using GetPointLockStatus_exact [OF plm_ok_Add [OF plm_ok_new [of 16 "\<lambda>_. 7" 0 5], of 3], of 3 "''k''" "[1]" True]
  by (auto simp: plm_lock_def AddColumnFamily_def PointLockManager_new_def lock_at_new)

end
