(* ===== verification/Txn_Locks.thy ===== *)
theory Txn_Locks
  imports Pessimistic_Txn Save_Points Lock_Properties
begin

text \<open>
  The locks of a transaction: the tracker of a transaction and the lock manager agree. Every key a
  transaction tracks is locked by it, through waiting, save points, undone reads and whatever other
  threads do, as long as these do not take away its locks.
\<close>

section \<open>Holding a key\<close>

definition holds :: "TransactionID \<Rightarrow> bool \<Rightarrow> LockInfo option \<Rightarrow> bool" where
  "holds txn e l \<longleftrightarrow>
     (\<exists>li. l = Some li \<and> txn \<in> set (txn_ids li) \<and> (e \<longrightarrow> exclusive li \<and> txn_ids li = [txn]))"

lemma holds_mono: "holds txn e l \<Longrightarrow> (e' \<Longrightarrow> e) \<Longrightarrow> holds txn e' l"
  by (auto simp: holds_def)

lemma holds_plm_cf: "holds txn e (plm_lock hash m cf k) \<Longrightarrow> map_of (lock_maps m) cf \<noteq> None"
  by (auto simp: holds_def plm_lock_def bind_eq_Some_conv)

text \<open>The lock manager \<open>m'\<close> comes from \<open>m\<close> by steps that keep the locks of \<open>txn\<close>.\<close>

definition spares :: "(string \<Rightarrow> u64) \<Rightarrow> TransactionID \<Rightarrow> PointLockManager \<Rightarrow> PointLockManager \<Rightarrow> bool" where
  "spares hash txn m m' \<longleftrightarrow> plm_ok hash m' \<and> map_of (lock_maps m) \<subseteq>\<^sub>m map_of (lock_maps m') \<and>
     (\<forall>cf a. map_of (lock_maps m) cf = Some a \<longrightarrow>
        num_stripes (lock_map_heap m' ! a) = num_stripes (lock_map_heap m ! a)) \<and>
     (\<forall>cf k e. holds txn e (plm_lock hash m cf k) \<longrightarrow> holds txn e (plm_lock hash m' cf k))"

definition considerate :: "(string \<Rightarrow> u64) \<Rightarrow> TransactionID \<Rightarrow> 'x wake \<Rightarrow> bool" where
  "considerate hash txn k \<longleftrightarrow>
     (\<forall>w. plm_ok hash (lw_plm w) \<longrightarrow>
        spares hash txn (lw_plm w) (lw_plm (wk_others k w)) \<and> lw_txn (wk_others k w) = lw_txn w)"

definition keeps ::
  "(string \<Rightarrow> u64) \<Rightarrow> TransactionID \<Rightarrow> (ColumnFamilyId \<Rightarrow> string \<Rightarrow> bool \<Rightarrow> bool) \<Rightarrow> ColumnFamilyId set \<Rightarrow>
   PointLockManager \<Rightarrow> bool" where
  "keeps hash txn H C m \<longleftrightarrow> plm_ok hash m \<and> C \<subseteq> dom (map_of (lock_maps m)) \<and>
     (\<forall>cf k e. H cf k e \<longrightarrow> holds txn e (plm_lock hash m cf k))"

lemma keeps_spares: "keeps hash txn H C m \<Longrightarrow> spares hash txn m m' \<Longrightarrow> keeps hash txn H C m'"
  using map_le_implies_dom_le [of "map_of (lock_maps m)" "map_of (lock_maps m')"]
  unfolding keeps_def spares_def by blast

lemma spares_map:
  assumes "spares hash txn m m'" "map_of (lock_maps m) cf = Some a"
  shows "map_of (lock_maps m') cf = Some a" "num_stripes (lock_map_heap m' ! a) = num_stripes (lock_map_heap m ! a)"
proof -
  from assms(1) have "map_of (lock_maps m) \<subseteq>\<^sub>m map_of (lock_maps m')" by (simp add: spares_def)
  then have "map_of (lock_maps m) cf = map_of (lock_maps m') cf" using assms(2) unfolding map_le_def by blast
  with assms(2) show "map_of (lock_maps m') cf = Some a" by simp
  show "num_stripes (lock_map_heap m' ! a) = num_stripes (lock_map_heap m ! a)"
    using assms by (simp add: spares_def)
qed

text \<open>The same with the lock map the transaction waits at.\<close>

definition keeps_at where
  "keeps_at hash txn H C cf a n w \<longleftrightarrow> keeps hash txn H C (lw_plm w) \<and> txn_id (lw_txn w) = txn \<and>
     map_of (lock_maps (lw_plm w)) cf = Some a \<and> num_stripes (lock_map_heap (lw_plm w) ! a) = n"

lemma table_acquire_holds:
  assumes "table_acquire steal mx (T, cnt) key now info e ids x = (s, (T', cnt'), e', ids', x')"
    and "single info" "txn_ids info ! 0 = txn" "holds txn b (T k)" "k = key \<Longrightarrow> b \<Longrightarrow> exclusive info"
  shows "holds txn b (T' k)"
  using table_acquire_cases [OF assms(1,2)] assms(3-5) single_info_ok(2) [OF assms(2)]
  by (auto simp: holds_def)

lemma acquire_at_keeps:
  assumes w: "keeps_at hash txn H C cf a n w" and single: "single info" "txn_ids info ! 0 = txn"
    and H: "H cf key True \<Longrightarrow> exclusive info"
    and acq: "acquire_at steal a (stripe_of hash n key) key now info hint ids w = (s, hint', ids', w')"
  shows "keeps_at hash txn H C cf a n w'" and "ok s \<Longrightarrow> holds txn (exclusive info) (plm_lock hash (lw_plm w') cf key)"
proof -
  let ?m = "lw_plm w"
  let ?lm = "lock_map_heap ?m ! a"
  have plm: "plm_ok hash ?m" and cf: "map_of (lock_maps ?m) cf = Some a" and n: "num_stripes ?lm = n"
    using w by (simp_all add: keeps_at_def keeps_def)
  have ok: "lm_ok hash ?lm" and a: "a < length (lock_map_heap ?m)" using plm cf unfolding plm_ok_def by blast+
  have st: "stripe_of hash n key = GetStripe hash ?lm key" by (simp add: stripe_of_def GetStripe_def n)
  obtain lm x where al: "AcquireLocked steal (max_num_locks ?m) ?lm (GetStripe hash ?lm key) key now info hint ids (lw_db w) =
      (s, lm, hint', ids', x)"
    and w': "w' = w\<lparr>lw_plm := ?m\<lparr>lock_map_heap := (lock_map_heap ?m)[a := lm]\<rparr>, lw_db := x\<rparr>"
    using acq unfolding st by (auto simp: acquire_at_def split: prod.splits)
  note t = AcquireLocked_table [OF ok single(1) al]
  note put = plm_put_lock_map [OF plm cf t(2)]
  have lk: "plm_lock hash ?m cf = lock_at hash ?lm" using cf by (simp add: plm_lock_def fun_eq_iff)
  have "holds txn e (plm_lock hash (lw_plm w') c k)" if "H c k e" for c k e
  proof -
    have old: "holds txn e (plm_lock hash ?m c k)" using w that by (simp add: keeps_at_def keeps_def)
    show ?thesis
    proof (cases "c = cf")
      case True
      with old lk have "holds txn e (lock_at hash ?lm k)" by simp
      moreover have "exclusive info" if "k = key" "e" using H \<open>H c k e\<close> True that by simp
      ultimately have "holds txn e (lock_at hash lm k)"
        by (rule table_acquire_holds [OF t(1) [unfolded table_of_def] single])
      with True show ?thesis by (simp add: w' put(2))
    qed (use old in \<open>simp add: w' put(2)\<close>)
  qed
  then show "keeps_at hash txn H C cf a n w'"
    using w put(1) a n t(3) by (auto simp: keeps_at_def keeps_def w')
  show "holds txn (exclusive info) (plm_lock hash (lw_plm w') cf key)" if "ok s"
    using table_acquire_cases [OF t(1) [unfolded table_of_def] single(1)] that single(2) single_info_ok(2) [OF single(1)]
    by (auto simp: holds_def w' put(2))
qed

lemma announce_wait_keeps:
  assumes "keeps_at hash txn H C cf a n w" "announce_wait c key excl k ids w = Some (b, w')"
  shows "keeps_at hash txn H C cf a n w'"
  using assms
  by (auto simp: announce_wait_def Let_def SetWaitingTxn_def keeps_at_def keeps_def plm_ok_def cache_ok_def
      plm_lock_def split: if_splits)

lemma withdraw_wait_keeps:
  assumes "keeps_at hash txn H C cf a n w" "withdraw_wait ids w = Some w'"
  shows "keeps_at hash txn H C cf a n w'"
  using assms
  by (auto simp: withdraw_wait_def Let_def ClearWaitingTxn_def keeps_at_def keeps_def plm_ok_def cache_ok_def
      plm_lock_def split: if_splits)

lemma do_wait_keeps:
  assumes "keeps_at hash txn H C cf a n w" "considerate hash txn k" "do_wait cv k r w = (r', w')"
  shows "keeps_at hash txn H C cf a n w'"
proof -
  have "w' = w \<or> w' = wk_others k w" using assms(3) by (auto simp: do_wait_def split: if_splits)
  moreover have "keeps_at hash txn H C cf a n (wk_others k w)"
  proof -
    have r: "spares hash txn (lw_plm w) (lw_plm (wk_others k w))" "lw_txn (wk_others k w) = lw_txn w"
      using assms(1,2) by (simp_all add: considerate_def keeps_at_def keeps_def)
    show ?thesis
      using assms(1) r(2) keeps_spares [OF _ r(1)] spares_map [OF r(1), of cf a] by (simp add: keeps_at_def)
  qed
  ultimately show ?thesis using assms(1) by auto
qed

lemma wait_loop_keeps:
  assumes "list_all (considerate hash txn) ks" "keeps_at hash txn H C cf a n w"
    and single: "single info" "txn_ids info ! 0 = txn" and H: "H cf key True \<Longrightarrow> exclusive info"
    and "\<not> ok result"
    and "wait_loop steal a (stripe_of hash n key) cf key end_time info result hint ids w ks = Returned (s, w')"
  shows "keeps_at hash txn H C cf a n w' \<and> (ok s \<longrightarrow> holds txn (exclusive info) (plm_lock hash (lw_plm w') cf key))"
  using assms(1,2,6,7)
proof (induction ks arbitrary: result hint ids w)
  case (Cons k ks)
  have k: "considerate hash txn k" "list_all (considerate hash txn) ks" using Cons.prems(1) by simp_all
  from Cons.prems(4) obtain b w1 where an: "announce_wait cf key (exclusive info) k ids w = Some (b, w1)"
    by (auto split: option.splits)
  note w1 = announce_wait_keeps [OF Cons.prems(2) an]
  show ?case
  proof (cases b)
    case True
    with an Cons.prems(4) w1 show ?thesis by (auto simp: status_simps)
  next
    case False
    with an have an: "announce_wait cf key (exclusive info) k ids w = Some (False, w1)" by simp
    obtain r2 w2 where dw: "do_wait (cv_end_time hint end_time) k result w1 = (r2, w2)" by force
    note w2 = do_wait_keeps [OF w1 k(1) dw]
    from Cons.prems(4) an dw obtain w3 where wd: "withdraw_wait ids w2 = Some w3" by (auto split: option.splits)
    note w3 = withdraw_wait_keeps [OF w2 wd]
    note step = Cons.prems(4) [unfolded wait_loop_step [OF an dw wd]]
    show ?thesis
    proof (cases "ok r2 \<or> IsTimedOut r2")
      case True
      obtain r4 h4 i4 w4 where acq: "acquire_at steal a (stripe_of hash n key) key (wk_retry_now k) info hint ids w3 =
          (r4, h4, i4, w4)" by (metis prod_cases4)
      note a = acquire_at_keeps [OF w3 single H acq]
      show ?thesis
      proof (cases "\<not> ok r4 \<and> \<not> IsTimedOut r2")
        case loop: True
        with step True acq show ?thesis by (intro Cons.IH [OF k(2) a(1)]) auto
      next
        case False
        with step True acq have "r4 = s" "w4 = w'" by (auto split: if_splits)
        with a show ?thesis by simp
      qed
    next
      case False
      with step show ?thesis by (intro Cons.IH [OF k(2) w3]) auto
    qed
  qed
qed simp

lemma PLM_TryLock_keeps:
  assumes keeps: "keeps hash (txn_id (lw_txn w)) H C (lw_plm w)"
    and wakes: "list_all (considerate hash (txn_id (lw_txn w))) wakes" and H: "H cf key True \<Longrightarrow> excl"
    and run: "PLM_TryLock hash steal thread cf key excl t0 try_lock now wakes w = Returned (s, w')"
  shows "keeps hash (txn_id (lw_txn w)) H C (lw_plm w') \<and> txn_id (lw_txn w') = txn_id (lw_txn w) \<and>
    (ok s \<longrightarrow> holds (txn_id (lw_txn w)) excl (plm_lock hash (lw_plm w') cf key))"
proof (cases "map_of (lock_maps (lw_plm w)) cf")
  case None
  have plm: "plm_ok hash (lw_plm w)" using keeps by (simp add: keeps_def)
  from GetLockMap_ok [OF plm, of thread cf] None obtain m where m: "GetLockMap thread (lw_plm w) cf = (None, m)"
    "plm_ok hash m" "lock_maps m = lock_maps (lw_plm w)" "lock_map_heap m = lock_map_heap (lw_plm w)" by auto
  with run have "w' = w\<lparr>lw_plm := m\<rparr>" "\<not> ok s" by (auto simp: PLM_TryLock_def status_simps)
  with keeps m show ?thesis by (simp add: keeps_def plm_lock_def)
next
  case (Some a)
  let ?n = "num_stripes (lock_map_heap (lw_plm w) ! a)" and ?txn = "txn_id (lw_txn w)"
  let ?info = "LockInfo_new ?txn (lt_expiration_time (lw_txn w)) excl"
  have plm: "plm_ok hash (lw_plm w)" using keeps by (simp add: keeps_def)
  from GetLockMap_ok [OF plm, of thread cf] Some obtain m where m: "GetLockMap thread (lw_plm w) cf = (Some a, m)"
    "plm_ok hash m" "lock_maps m = lock_maps (lw_plm w)" "lock_map_heap m = lock_map_heap (lw_plm w)" by auto
  have "lm_ok hash (lock_map_heap m ! a)" using m(2,3) Some unfolding plm_ok_def by auto
  note less = GetStripe_less [OF this, of key]
  have st: "GetStripe hash (lock_map_heap m ! a) key = stripe_of hash ?n key"
    by (simp add: GetStripe_def stripe_of_def m(4))
  from run less have eq: "AcquireWithTimeout steal a (stripe_of hash ?n key) cf key (lock_timeout (lw_txn w)) ?info
      t0 try_lock now wakes (w\<lparr>lw_plm := m\<rparr>) = Returned (s, w')"
    by (simp add: PLM_TryLock_def m(1) Let_def st)
  have wm: "keeps_at hash ?txn H C cf a ?n (w\<lparr>lw_plm := m\<rparr>)"
    using keeps m Some by (simp add: keeps_at_def keeps_def plm_lock_def)
  have inf: "single ?info" "txn_ids ?info ! 0 = ?txn" "exclusive ?info = excl" by (simp_all add: LockInfo_new_def single_def)
  obtain r h ids w1 where acq: "acquire_at steal a (stripe_of hash ?n key) key now ?info 0 [] (w\<lparr>lw_plm := m\<rparr>) = (r, h, ids, w1)"
    by (metis prod_cases4)
  have Hi: "H cf key True \<Longrightarrow> exclusive ?info" unfolding inf(3) by (rule H)
  note a = acquire_at_keeps [OF wm inf(1,2) Hi acq, unfolded inf(3)]
  have "keeps_at hash ?txn H C cf a ?n w' \<and> (ok s \<longrightarrow> holds ?txn excl (plm_lock hash (lw_plm w') cf key))"
  proof (cases "ok (if lock_timeout (lw_txn w) < 0 then Mutex_Lock else Mutex_TryLockFor (lock_timeout (lw_txn w)) try_lock)")
    case False
    with eq wm show ?thesis by (auto simp: AcquireWithTimeout_def Let_def)
  next
    case True
    note eq = eq [unfolded AcquireWithTimeout_def Let_def acq]
    show ?thesis
    proof (cases "\<not> ok r \<and> lock_timeout (lw_txn w) \<noteq> 0")
      case wait: True
      with eq True have "wait_loop steal a (stripe_of hash ?n key) cf key
          (if lock_timeout (lw_txn w) > 0 then t0 + of_int (lock_timeout (lw_txn w)) else 0) ?info r h ids w1 wakes =
          Returned (s, w')" by (simp split: if_splits)
      from wait_loop_keeps [OF wakes a(1) inf(1,2) Hi _ this] wait show ?thesis by (simp add: inf(3))
    next
      case False
      with eq True have "r = s" "w1 = w'" by (auto split: if_splits)
      with a show ?thesis by simp
    qed
  qed
  then show ?thesis by (simp add: keeps_at_def)
qed

section \<open>The operations of a transaction\<close>

definition held :: "bool \<Rightarrow> TrackedKeys \<Rightarrow> ColumnFamilyId \<Rightarrow> string \<Rightarrow> bool \<Rightarrow> bool" where
  "held strict T cf k e \<longleftrightarrow> (\<exists>i. tracked_at T cf k = Some i \<and> e = (strict \<and> tki_exclusive i))"

definition calls_ok :: "(string \<Rightarrow> u64) \<Rightarrow> TransactionID \<Rightarrow> 'd pworld \<Rightarrow> bool" where
  "calls_ok hash txn r \<longleftrightarrow> (\<forall>c\<in>set (pw_calls r). list_all (considerate hash txn) (lc_wakes c))"

text \<open>
  The invariant: the tracked keys are held by the transaction, in exclusive mode those tracked so if
  \<open>strict\<close>; the calls to come only meet other threads that spare its locks.
\<close>

definition pt_inv :: "(string \<Rightarrow> u64) \<Rightarrow> bool \<Rightarrow> ('b, 'c, 'd) pt_world \<Rightarrow> bool" where
  "pt_inv hash strict = (\<lambda>(t, r). tb_inv t \<and> calls_ok hash (txn_id (pt_lock t)) r \<and>
     keeps hash (txn_id (pt_lock t)) (held strict (tracked_locks t)) (fst ` set (tracked_locks t)) (pw_plm r))"

text \<open>Two states of a transaction with the same trackers and id.\<close>

definition same_locks :: "('b, 'c) PTxn \<Rightarrow> ('b, 'c) PTxn \<Rightarrow> bool" where
  "same_locks t t' \<longleftrightarrow> tracked_locks t' = tracked_locks t \<and> save_points t' = save_points t \<and>
     txn_id (pt_lock t') = txn_id (pt_lock t)"

lemma same_locks_refl [simp]: "same_locks t t"
  by (simp add: same_locks_def)

lemma same_locks_trans: "same_locks t t' \<Longrightarrow> same_locks t' t'' \<Longrightarrow> same_locks t t''"
  by (simp add: same_locks_def)

lemma tb_inv_same: "same_locks t t' \<Longrightarrow> tb_inv t' = tb_inv t"
  by (simp add: same_locks_def tb_inv_def)

lemma pt_inv_same:
  assumes "pt_inv hash strict (t, r)" "same_locks t t'" "calls_ok hash (txn_id (pt_lock t)) r'"
    and "keeps hash (txn_id (pt_lock t)) (held strict (tracked_locks t)) (fst ` set (tracked_locks t)) (pw_plm r')"
  shows "pt_inv hash strict (t', r')"
  using assms tb_inv_same [OF assms(2)] by (simp add: pt_inv_def same_locks_def)

lemma outcome_bindE:
  assumes "bind_outcome x f = Returned y"
  obtains z where "x = Returned z" "f z = Returned y"
  using assms by (cases x) auto

lemma PTxnDB_TryLock_keeps:
  assumes run: "PTxnDB_TryLock env cf key excl (t, r) = Returned (s, t', r')"
    and keeps: "keeps (pe_hash env) (txn_id (pt_lock t)) H C (pw_plm r)" "calls_ok (pe_hash env) (txn_id (pt_lock t)) r"
    and H: "H cf key True \<Longrightarrow> excl"
  shows "same_locks t t' \<and> keeps (pe_hash env) (txn_id (pt_lock t)) H C (pw_plm r') \<and>
    calls_ok (pe_hash env) (txn_id (pt_lock t)) r' \<and>
    (ok s \<longrightarrow> holds (txn_id (pt_lock t)) excl (plm_lock (pe_hash env) (pw_plm r') cf key))"
proof -
  from run obtain c calls where c: "pw_calls r = c # calls" by (auto simp: PTxnDB_TryLock_def split: list.splits)
  from run obtain lw where lw: "PLM_TryLock (pe_hash env) TryStealingExpiredTransactionLocks (pe_thread env) cf key excl
      (lc_start_time c) (lc_try_lock c) (lc_now c) (lc_wakes c) \<lparr>lw_plm = pw_plm r, lw_txn = pt_lock t, lw_db = take_db r\<rparr> =
      Returned (s, lw)" and t': "t' = t\<lparr>pt_lock := lw_txn lw\<rparr>"
    and r': "r' = (put_db (lw_db lw) r)\<lparr>pw_plm := lw_plm lw, pw_calls := calls\<rparr>"
    by (auto simp: PTxnDB_TryLock_def c elim!: outcome_bindE)
  have "list_all (considerate (pe_hash env) (txn_id (pt_lock t))) (lc_wakes c)" using keeps(2) by (simp add: calls_ok_def c)
  with PLM_TryLock_keeps [OF _ _ H lw] keeps show ?thesis
    by (simp add: t' r' same_locks_def calls_ok_def c)
qed

lemma PTxnDB_UnLock_key_keeps:
  assumes "keeps (pe_hash env) txn H C (pw_plm r)" "\<And>e. \<not> H cf key e"
  shows "\<exists>r'. PTxnDB_UnLock_key env cf key (t, r) = Returned (t, r') \<and> keeps (pe_hash env) txn H C (pw_plm r') \<and>
    pw_calls r' = pw_calls r"
proof -
  let ?m = "pw_plm r" and ?h = "pe_hash env" and ?txn = "txn_id (pt_lock t)"
  have plm: "plm_ok ?h ?m" using assms(1) by (simp add: keeps_def)
  from GetLockMap_ok [OF plm, of "pe_thread env" cf] obtain m where
    m: "GetLockMap (pe_thread env) ?m cf = (map_of (lock_maps ?m) cf, m)"
    "plm_ok ?h m" "lock_maps m = lock_maps ?m" "lock_map_heap m = lock_map_heap ?m" by blast
  show ?thesis
  proof (cases "map_of (lock_maps ?m) cf")
    case None
    with m assms(1) show ?thesis
      by (intro exI [of _ "r\<lparr>pw_plm := m\<rparr>"])
        (simp add: PTxnDB_UnLock_key_def UnLock_key_def keeps_def plm_lock_def)
  next
    case (Some a)
    define lm where "lm = UnLockKey (max_num_locks m) ?txn key (GetStripe ?h (lock_map_heap m ! a) key) (lock_map_heap m ! a)"
    have am: "map_of (lock_maps m) cf = Some a" using Some m(3) by simp
    have ok: "lm_ok ?h (lock_map_heap m ! a)" using m(2) am unfolding plm_ok_def by blast
    have lm: "lm_ok ?h lm" "lock_at ?h lm = (lock_at ?h (lock_map_heap m ! a))(key := release_opt ?txn (lock_at ?h (lock_map_heap m ! a) key))"
      unfolding lm_def by (rule UnLockKey_table(2) [OF ok], rule UnLockKey_lock_at [OF ok])
    note put = plm_put_lock_map [OF m(2) am lm(1)]
    have old: "plm_lock ?h m = plm_lock ?h ?m" "plm_lock ?h ?m cf = lock_at ?h (lock_map_heap m ! a)"
      using m(3,4) am by (simp_all add: plm_lock_def fun_eq_iff)
    have run: "PTxnDB_UnLock_key env cf key (t, r) =
        Returned (t, r\<lparr>pw_plm := m\<lparr>lock_map_heap := (lock_map_heap m)[a := lm]\<rparr>\<rparr>)"
      using GetStripe_less [OF ok, of key] m(1) Some
      by (simp add: PTxnDB_UnLock_key_def UnLock_key_def Let_def lm_def)
    have "holds txn e (plm_lock ?h (m\<lparr>lock_map_heap := (lock_map_heap m)[a := lm]\<rparr>) c k)" if "H c k e" for c k e
    proof -
      have "holds txn e (plm_lock ?h ?m c k)" using assms(1) that by (simp add: keeps_def)
      with assms(2) that show ?thesis by (cases "c = cf") (auto simp: put(2) lm(2) old)
    qed
    with run put(1) assms(1) m(3) show ?thesis
      by (intro exI [of _ "r\<lparr>pw_plm := m\<lparr>lock_map_heap := (lock_map_heap m)[a := lm]\<rparr>\<rparr>"]) (auto simp: keeps_def)
  qed
qed

lemma PTxnDB_UnLock_keeps:
  assumes "keeps (pe_hash env) txn H C (pw_plm r)" "alist_ok T" "\<forall>cf keys. map_of T cf = Some keys \<longrightarrow> alist_ok keys"
    and "fst ` set T \<subseteq> C" and "\<forall>cf k e. H cf k e \<longrightarrow> tracked_at T cf k = None"
  shows "\<exists>r'. PTxnDB_UnLock env T (t, r) = Returned (t, r') \<and> keeps (pe_hash env) txn H C (pw_plm r') \<and>
    pw_calls r' = pw_calls r \<and>
    (\<forall>cf k. plm_lock (pe_hash env) (pw_plm r') cf k =
       (if tracked_at T cf k \<noteq> None then release_opt (txn_id (pt_lock t)) (plm_lock (pe_hash env) (pw_plm r) cf k)
        else plm_lock (pe_hash env) (pw_plm r) cf k))"
proof -
  have plm: "plm_ok (pe_hash env) (pw_plm r)" using assms(1) by (simp add: keeps_def)
  have "set (map fst T) \<subseteq> set (map fst (lock_maps (pw_plm r)))"
    using assms(1,4) by (auto simp: keeps_def dom_map_of_conv_image_fst)
  from UnLock_tracker_ok [OF plm assms(2) _ this, of "pe_thread env" "txn_id (pt_lock t)"] assms(3)
  obtain m' where m': "UnLock_tracker (pe_hash env) (pe_thread env) (pw_plm r) (txn_id (pt_lock t)) T = Some m'"
    "plm_ok (pe_hash env) m'" "lock_maps m' = lock_maps (pw_plm r)"
    "\<forall>cf k. plm_lock (pe_hash env) m' cf k =
       (if tracked_at T cf k \<noteq> None then release_opt (txn_id (pt_lock t)) (plm_lock (pe_hash env) (pw_plm r) cf k)
        else plm_lock (pe_hash env) (pw_plm r) cf k)" by blast
  have "holds txn e (plm_lock (pe_hash env) m' cf k)" if "H cf k e" for cf k e
  proof -
    have "tracked_at T cf k = None" using assms(5) that by blast
    with assms(1) that m'(4) show ?thesis by (simp add: keeps_def)
  qed
  with m' assms(1) show ?thesis
    by (intro exI [of _ "r\<lparr>pw_plm := m'\<rparr>"]) (simp add: PTxnDB_UnLock_def keeps_def)
qed

lemma TrackKey_simps [simp]:
  "tracked_locks (TrackKey cf key seq ro excl t) = Track (tracked_locks t)
     \<lparr>plr_column_family_id = cf, plr_key = key, plr_seq = seq, plr_read_only = ro, plr_exclusive = excl\<rparr>"
  "pt_lock (TrackKey cf key seq ro excl t') = pt_lock t'"
  by (simp_all add: TrackKey_def Let_def split: list.split)

lemma pt_inv_Track:
  assumes inv: "pt_inv hash strict (t, r)" and room: "room_for (tracked_locks t) 1"
    and new: "holds (txn_id (pt_lock t)) (strict \<and> excl) (plm_lock hash (pw_plm r) cf key)"
  shows "pt_inv hash strict (TrackKey cf key seq ro excl t, r)"
proof -
  let ?T = "tracked_locks t" and ?txn = "txn_id (pt_lock t)" and ?m = "pw_plm r"
  define q where "q = \<lparr>plr_column_family_id = cf, plr_key = key, plr_seq = seq, plr_read_only = ro, plr_exclusive = excl\<rparr>"
  have tb: "tb_inv t" and k: "keeps hash ?txn (held strict ?T) (fst ` set ?T) ?m" and c: "calls_ok hash ?txn r"
    using inv by (simp_all add: pt_inv_def)
  have "holds ?txn e (plm_lock hash ?m c k')" if "held strict (Track ?T q) c k' e" for c k' e
  proof (cases "c = cf \<and> k' = key")
    case False
    with that have "held strict ?T c k' e" by (auto simp: held_def tracked_at_Track q_def)
    with k show ?thesis by (simp add: keeps_def)
  next
    case True
    with that have e: "e = (strict \<and> tki_exclusive (track_info (tracked_at ?T cf key) q))"
      by (simp add: held_def tracked_at_Track q_def)
    show ?thesis
    proof (cases "tracked_at ?T cf key")
      case None
      with e have "e = (strict \<and> excl)" by (simp add: track_info_def TrackedKeyInfo_new_def q_def)
      with new True show ?thesis by simp
    next
      case (Some i)
      then have "holds ?txn (strict \<and> tki_exclusive i) (plm_lock hash ?m cf key)" using k by (simp add: keeps_def held_def)
      with new Some e True show ?thesis by (auto simp: track_info_def q_def holds_def)
    qed
  qed
  moreover have "fst ` set (Track ?T q) \<subseteq> dom (map_of (lock_maps ?m))"
  proof -
    have "fst ` set (Track ?T q) \<subseteq> insert cf (fst ` set ?T)"
      unfolding Track_eq q_def by (auto simp: dom_update)
    then show ?thesis using k holds_plm_cf [OF new] by (auto simp: keeps_def)
  qed
  ultimately show ?thesis
    using step_Track(1) [OF tb room] c k by (simp add: pt_inv_def keeps_def q_def)
qed

lemma lock_phase:
  fixes t :: "('b, 'c) PTxn"
  assumes inv: "pt_inv (pe_hash env) strict (t, r)"
    and run: "(if \<not> prev \<or> upg then PTxnDB_TryLock env cf key excl (t, r) else Returned (OK, t, r)) = Returned (s, t', r')"
    and prev: "prev \<longleftrightarrow> tracked_at (tracked_locks t) cf key \<noteq> None"
    and upg: "upg \<longleftrightarrow> (\<exists>i. tracked_at (tracked_locks t) cf key = Some i \<and> excl \<and> \<not> tki_exclusive i)"
  shows "same_locks t t' \<and> pt_inv (pe_hash env) strict (t', r') \<and>
    (ok s \<longrightarrow> holds (txn_id (pt_lock t)) (strict \<and> excl) (plm_lock (pe_hash env) (pw_plm r') cf key))"
proof (cases "\<not> prev \<or> upg")
  case True
  with run have run: "PTxnDB_TryLock env cf key excl (t, r) = Returned (s, t', r')" by simp
  have H: "held strict (tracked_locks t) cf key True \<Longrightarrow> excl" using True prev upg by (auto simp: held_def)
  have "keeps (pe_hash env) (txn_id (pt_lock t)) (held strict (tracked_locks t)) (fst ` set (tracked_locks t)) (pw_plm r)"
    "calls_ok (pe_hash env) (txn_id (pt_lock t)) r" using inv by (simp_all add: pt_inv_def)
  from PTxnDB_TryLock_keeps [OF run this H] show ?thesis by (auto intro: pt_inv_same [OF inv] holds_mono)
next
  case False
  then obtain i where i: "tracked_at (tracked_locks t) cf key = Some i" "excl \<longrightarrow> tki_exclusive i" using prev upg by auto
  then have "holds (txn_id (pt_lock t)) (strict \<and> tki_exclusive i) (plm_lock (pe_hash env) (pw_plm r) cf key)"
    using inv by (simp add: pt_inv_def keeps_def held_def)
  with i(2) False run inv show ?thesis by (auto intro: holds_mono)
qed

lemma validate_phase:
  fixes t :: "('b, 'c) PTxn"
  assumes inv: "pt_inv (pe_hash env) strict (t, r)" and strict: "strict \<Longrightarrow> \<not> upg"
    and run: "validate_lock ops env cf key upg prev seq (t, r) = Returned (s, seq', t', r')"
    and prev: "prev \<longleftrightarrow> tracked_at (tracked_locks t) (db_GetColumnFamilyID ops cf) key \<noteq> None"
    and held: "holds (txn_id (pt_lock t)) (strict \<and> excl) (plm_lock (pe_hash env) (pw_plm r) (db_GetColumnFamilyID ops cf) key)"
  shows "same_locks t t' \<and> pt_inv (pe_hash env) strict (t', r') \<and>
    (ok s \<longrightarrow> holds (txn_id (pt_lock t)) (strict \<and> excl)
       (plm_lock (pe_hash env) (pw_plm r') (db_GetColumnFamilyID ops cf) key))"
proof -
  let ?cf = "db_GetColumnFamilyID ops cf" and ?T = "tracked_locks t"
  obtain s0 seq0 where v: "ValidateSnapshot ops cf key seq (t, r) = (s0, seq0)" by force
  have k: "keeps (pe_hash env) (txn_id (pt_lock t)) (held strict ?T) (fst ` set ?T) (pw_plm r)"
    "calls_ok (pe_hash env) (txn_id (pt_lock t)) r" using inv by (simp_all add: pt_inv_def)
  consider (valid) "ok s0" | (upg) "\<not> ok s0" "upg" | (new) "\<not> ok s0" "\<not> upg" "\<not> prev" | (old) "\<not> ok s0" "\<not> upg" "prev"
    by blast
  then show ?thesis
  proof cases
    case upg
    with run v have tl: "PTxnDB_TryLock env ?cf key False (t, r) = Returned (s, t', r')"
      by (auto simp: validate_lock_def elim!: outcome_bindE)
    have "held strict ?T ?cf key True \<Longrightarrow> False" using strict upg by (auto simp: held_def)
    from PTxnDB_TryLock_keeps [OF tl k this] strict upg show ?thesis
      by (auto intro: pt_inv_same [OF inv] holds_mono)
  next
    case new
    then have "\<And>e. \<not> held strict ?T ?cf key e" using prev by (simp add: held_def)
    from PTxnDB_UnLock_key_keeps [OF k(1) this, of t] new run v inv k show ?thesis
      by (auto simp: validate_lock_def pt_inv_def calls_ok_def)
  qed (use run v inv held in \<open>auto simp: validate_lock_def\<close>)
qed

lemma SetSnapshotIfNeeded_frame:
  fixes w :: "('b, 'c, 'd) pt_world"
  shows "same_locks (fst w) (fst (SetSnapshotIfNeeded ops w))"
    "pw_plm (snd (SetSnapshotIfNeeded ops w)) = pw_plm (snd w)" "pw_calls (snd (SetSnapshotIfNeeded ops w)) = pw_calls (snd w)"
  by (simp_all add: SetSnapshotIfNeeded_def SetSnapshot_def SetSnapshotInternal_def same_locks_def Let_def
      split: prod.splits option.splits)

lemma pt_inv_SetSnapshotIfNeeded:
  assumes "pt_inv hash strict w"
  shows "pt_inv hash strict (SetSnapshotIfNeeded ops w)"
  using pt_inv_same [of hash strict "fst w" "snd w" "fst (SetSnapshotIfNeeded ops w)" "snd (SetSnapshotIfNeeded ops w)"]
    assms SetSnapshotIfNeeded_frame [where w = w and ops = ops]
  by (cases w) (simp add: pt_inv_def calls_ok_def split_beta)

text \<open>A key tracked as shared is asked for in exclusive mode, with validation.\<close>

definition validated_upgrade ::
  "('b, 'c, 'd) db_ops \<Rightarrow> ColumnFamilyHandle option \<Rightarrow> string \<Rightarrow> bool \<Rightarrow> bool \<Rightarrow> ('b, 'c) PTxn \<Rightarrow> bool" where
  "validated_upgrade ops cf key excl do_validate t \<longleftrightarrow> do_validate \<and> excl \<and>
     (case tracked_at (tracked_locks t) (db_GetColumnFamilyID ops cf) key of None \<Rightarrow> False | Some i \<Rightarrow> \<not> tki_exclusive i)"

lemma lock_status:
  "pls_locked (Tracker_GetPointLockStatus T cf key) \<longleftrightarrow> tracked_at T cf key \<noteq> None"
  "pls_locked (Tracker_GetPointLockStatus T cf key) \<and> excl \<and> \<not> pls_exclusive (Tracker_GetPointLockStatus T cf key) \<longleftrightarrow>
     (\<exists>i. tracked_at T cf key = Some i \<and> excl \<and> \<not> tki_exclusive i)"
  by (auto simp: Tracker_GetPointLockStatus_def tracked_at_def Let_def split: option.splits)

lemma check_phase:
  fixes w :: "('b, 'c, 'd) pt_world"
  assumes inv: "pt_inv (pe_hash env) strict w" and strict: "strict \<Longrightarrow> do_validate \<Longrightarrow> \<not> upg"
    and run: "check_lock ops env cf key do_validate assume_tracked upg prev seq s w = Returned (s', seq', w')"
    and prev: "prev \<longleftrightarrow> tracked_at (tracked_locks (fst w)) (db_GetColumnFamilyID ops cf) key \<noteq> None"
    and held: "ok s \<longrightarrow> holds (txn_id (pt_lock (fst w))) (strict \<and> excl)
       (plm_lock (pe_hash env) (pw_plm (snd w)) (db_GetColumnFamilyID ops cf) key)"
  shows "same_locks (fst w) (fst w') \<and> pt_inv (pe_hash env) strict w' \<and>
    (ok s' \<longrightarrow> holds (txn_id (pt_lock (fst w))) (strict \<and> excl)
       (plm_lock (pe_hash env) (pw_plm (snd w')) (db_GetColumnFamilyID ops cf) key))"
proof -
  let ?ts = "cfh_timestamp_size (case cf of Some h \<Rightarrow> h | None \<Rightarrow> db_DefaultColumnFamily ops)"
  let ?skip = "\<not> do_validate \<or> (snapshot (fst w) = None \<and> (?ts = 0 \<or> read_timestamp (fst w) = kMaxTxnTimestamp))"
  show ?thesis
  proof (cases "\<not> ?skip \<and> ok s")
    case True
    then have run: "validate_lock ops env cf key upg prev seq (fst w, snd w) = Returned (s', seq', fst w', snd w')"
      using run by (auto simp: check_lock_def Let_def split: if_splits)
    from True strict have "strict \<Longrightarrow> \<not> upg" by blast
    from validate_phase [OF _ this run prev] True inv held show ?thesis by simp
  next
    case False
    then have "w' = w \<and> (ok s' \<longrightarrow> ok s)"
      using run by (auto simp: check_lock_def Let_def status_simps split: if_splits)
    with inv held show ?thesis by simp
  qed
qed

lemma PTxn_TryLock_keeps:
  assumes inv: "pt_inv (pe_hash env) strict w" and room: "room_for (tracked_locks (fst w)) 1"
    and strict: "strict \<Longrightarrow> \<not> validated_upgrade ops cf key excl do_validate (fst w)"
    and run: "PTxn_TryLock ops env cf key ro excl do_validate assume_tracked w = Returned (s, w')"
  shows "pt_inv (pe_hash env) strict w' \<and>
    (ok s \<and> \<not> skip_concurrency_control (fst w) \<longrightarrow>
       holds (txn_id (pt_lock (fst w))) (strict \<and> excl)
         (plm_lock (pe_hash env) (pw_plm (snd w')) (db_GetColumnFamilyID ops cf) key))"
proof (cases "skip_concurrency_control (fst w)")
  case True
  with run inv show ?thesis by (simp add: PTxn_TryLock_def)
next
  case False
  define c where "c = db_GetColumnFamilyID ops cf"
  define T where "T = tracked_locks (fst w)"
  define prev where "prev \<longleftrightarrow> tracked_at T c key \<noteq> None"
  define upg where "upg \<longleftrightarrow> (\<exists>i. tracked_at T c key = Some i \<and> excl \<and> \<not> tki_exclusive i)"
  let ?st = "Tracker_GetPointLockStatus T c key"
  have st: "pls_locked ?st = prev" "(prev \<and> excl \<and> \<not> pls_exclusive ?st) = upg"
    using lock_status(1) [of T c key] lock_status(2) [of T c key excl] by (simp_all add: prev_def upg_def)
  note run' = run [unfolded PTxn_TryLock_def Let_def if_not_P [OF False], folded c_def T_def, unfolded st]
  from run' obtain s1 w1 where p1: "(if \<not> prev \<or> upg then PTxnDB_TryLock env c key excl w else Returned (OK, w)) = Returned (s1, w1)"
    by (elim outcome_bindE) auto
  note run2 = run' [unfolded p1, simplified]
  define w2 where "w2 = SetSnapshotIfNeeded ops w1"
  from run2 obtain s3 seq3 w3 where
    p2: "check_lock ops env cf key do_validate assume_tracked upg prev
        (if prev then pls_seq (Tracker_GetPointLockStatus T c key) else db_kMaxSequenceNumber ops) s1 w2 = Returned (s3, seq3, w3)"
    and w': "s = s3" "w' = (if ok s3 \<and> \<not> assume_tracked then TrackKey c key seq3 ro excl (fst w3) else fst w3, snd w3)"
    unfolding w2_def [symmetric] by (auto elim!: outcome_bindE)
  have "same_locks (fst w) (fst w1) \<and> pt_inv (pe_hash env) strict w1 \<and>
      (ok s1 \<longrightarrow> holds (txn_id (pt_lock (fst w))) (strict \<and> excl) (plm_lock (pe_hash env) (pw_plm (snd w1)) c key))"
    by (rule lock_phase [of env strict "fst w" "snd w" prev upg c key excl s1 "fst w1" "snd w1",
          unfolded prod.collapse, OF inv p1 prev_def [unfolded T_def] upg_def [unfolded T_def]])
  moreover note SetSnapshotIfNeeded_frame [where w = w1 and ops = ops, folded w2_def]
    pt_inv_SetSnapshotIfNeeded [of "pe_hash env" strict w1 ops, folded w2_def]
  ultimately have w2: "same_locks (fst w) (fst w2)" "pt_inv (pe_hash env) strict w2"
    "ok s1 \<longrightarrow> holds (txn_id (pt_lock (fst w2))) (strict \<and> excl) (plm_lock (pe_hash env) (pw_plm (snd w2)) c key)"
    by (auto simp: same_locks_def)
  have "strict \<Longrightarrow> do_validate \<Longrightarrow> \<not> upg" using strict by (auto simp: validated_upgrade_def upg_def T_def c_def)
  from check_phase [OF w2(2) this p2] w2 have w3: "same_locks (fst w2) (fst w3)" "pt_inv (pe_hash env) strict w3"
    "ok s3 \<longrightarrow> holds (txn_id (pt_lock (fst w2))) (strict \<and> excl) (plm_lock (pe_hash env) (pw_plm (snd w3)) c key)"
    by (simp_all add: c_def prev_def T_def same_locks_def)
  have "pt_inv (pe_hash env) strict (TrackKey c key seq3 ro excl (fst w3), snd w3)" if "ok s3"
    using w2(1) w3 room that by (intro pt_inv_Track) (simp_all add: same_locks_def)
  with w3 w2(1) show ?thesis by (simp add: w' c_def same_locks_def)
qed

lemma keeps_mono:
  "keeps hash txn H C m \<Longrightarrow> (\<And>cf k e. H' cf k e \<Longrightarrow> H cf k e) \<Longrightarrow> C' \<subseteq> C \<Longrightarrow> keeps hash txn H' C' m"
  unfolding keeps_def by blast

lemma update_fst_subset: "fst ` set (AList.update k v xs) \<subseteq> insert k (fst ` set xs)"
  by (auto simp: dom_update)

lemma Untrack_fst_subset: "fst ` set (snd (Untrack T q)) \<subseteq> fst ` set T"
proof (cases "tracked_at T (plr_column_family_id q) (plr_key q)")
  case (Some i)
  then obtain keys where keys: "map_of T (plr_column_family_id q) = Some keys" "map_of keys (plr_key q) = Some i"
    by (auto simp: tracked_at_def bind_eq_Some_conv)
  have "plr_column_family_id q \<in> fst ` set T" using map_of_SomeD [OF keys(1)] by force
  moreover have "fst ` set (AList.delete c xs) \<subseteq> fst ` set xs" for c and xs :: TrackedKeys by (auto simp: AList.delete_eq)
  ultimately show ?thesis unfolding Untrack_eq(1) [OF keys] by (auto simp: dom_update)
qed (simp add: Untrack_absent)

lemma pt_inv_Undo:
  assumes inv: "pt_inv (pe_hash env) strict w"
  shows "\<exists>w'. UndoGetForUpdate ops (PTxn_UnlockGetForUpdate ops env) cf key w = Returned w' \<and> pt_inv (pe_hash env) strict w'"
proof -
  obtain t r where w: "w = (t, r)" by force
  let ?c = "db_GetColumnFamilyID ops cf" and ?T = "tracked_locks t" and ?txn = "txn_id (pt_lock t)"
  obtain can t' where u: "undo_tracking ?c key t = (can, t')" by force
  have t': "tracked_locks t' = ?T \<and> \<not> can \<or> tracked_locks t' = snd (Untrack ?T (untrack_read ?c key)) \<and>
      (can \<longrightarrow> fst (Untrack ?T (untrack_read ?c key)) = REMOVED)" and same: "pt_lock t' = pt_lock t"
    using u by (auto simp: undo_tracking_def Let_def split: list.splits prod.splits if_splits)
  have tb: "tb_inv t" and k: "keeps (pe_hash env) ?txn (held strict ?T) (fst ` set ?T) (pw_plm r)"
    and c: "calls_ok (pe_hash env) ?txn r" using inv by (simp_all add: pt_inv_def w)
  have trk: "trk_inv ?T" using tb by (simp add: tb_inv_def)
  have sub: "held strict (tracked_locks t') c k e \<Longrightarrow> held strict ?T c k e" for c k e
    using t' by (auto simp: held_def Untrack_at bind_eq_Some_conv Let_def untrack_info_def split: if_splits)
  have cs: "fst ` set (tracked_locks t') \<subseteq> fst ` set ?T" using t' Untrack_fst_subset [of ?T "untrack_read ?c key"] by (elim disjE conjE) simp_all
  have k': "keeps (pe_hash env) ?txn (held strict (tracked_locks t')) (fst ` set (tracked_locks t')) (pw_plm r)"
    by (rule keeps_mono [OF k _ cs]) (rule sub)
  have tb': "tb_inv t'" using step_Undo(1) [OF tb, of ?c key] u by simp
  show ?thesis
  proof (cases can)
    case False
    with u k' tb' c same show ?thesis by (simp add: w UndoGetForUpdate_def pt_inv_def)
  next
    case True
    then have "tracked_at (tracked_locks t') ?c key = None"
      using t' Untrack_REMOVED [OF trk, of "untrack_read ?c key"] by auto
    then have "\<And>e. \<not> held strict (tracked_locks t') ?c key e" by (simp add: held_def)
    from PTxnDB_UnLock_key_keeps [OF k' this, of t'] obtain r' where
      "PTxnDB_UnLock_key env ?c key (t', r) = Returned (t', r')"
      "keeps (pe_hash env) ?txn (held strict (tracked_locks t')) (fst ` set (tracked_locks t')) (pw_plm r')"
      "pw_calls r' = pw_calls r" by blast
    with True u tb' c same show ?thesis
      by (simp add: w UndoGetForUpdate_def PTxn_UnlockGetForUpdate_def pt_inv_def calls_ok_def)
  qed
qed

lemma Subtract_keys_fst: "Subtract T S = Some u \<Longrightarrow> fst ` set u \<subseteq> fst ` set T"
proof (induction T S rule: Subtract.induct)
  case (2 T cf keys S)
  then obtain cur cur' where c: "map_of T cf = Some cur" "Subtract_keys cur keys = Some cur'"
    and u: "Subtract (AList.update cf cur' T) S = Some u" by (auto split: option.splits)
  have "cf \<in> fst ` set T" using map_of_SomeD [OF c(1)] by force
  then show ?case using 2(1) [OF c u] by (auto simp: dom_update)
qed simp

text \<open>The keys unlocked by a rollback to a save point are tracked before it and not after.\<close>

lemma rollback_trackers:
  assumes T: "trk_inv T" and S: "trk_compact S" "counts_le S T"
  shows "\<exists>u v. GetTrackedLocksSinceSavePoint T S = Some u \<and> shape_ok u \<and> fst ` set u \<subseteq> fst ` set T \<and>
    Subtract T S = Some v \<and> fst ` set v \<subseteq> fst ` set T \<and>
    (\<forall>strict cf k e. held strict v cf k e \<longrightarrow> held strict T cf k e \<and> tracked_at u cf k = None)"
proof -
  have S': "trk_inv S" using S(1) by (simp add: trk_compact_def)
  obtain u where u: "GetTrackedLocksSinceSavePoint T S = Some u"
    "\<And>cf k. tracked_at u cf k \<noteq> None \<longleftrightarrow> 0 < reads_of S cf k + writes_of S cf k \<and>
       reads_of T cf k = reads_of S cf k \<and> writes_of T cf k = writes_of S cf k"
    using GetTrackedLocksSinceSavePoint_counts [OF T S] by blast
  note shape = shape_ok_Since [OF u(1)]
  obtain v where v: "Subtract T S = Some v"
    "\<And>cf k. tracked_at v cf k = sub_info (tracked_at T cf k) (tracked_at S cf k)"
    using Subtract_at [OF T S(1) counts_le_tracked [OF S' T S(2)]] by blast
  have sub: "held strict v cf k e \<Longrightarrow> held strict T cf k e" for strict cf k e
    by (auto simp: held_def v(2) sub_info_def Let_def split: option.splits if_splits)
  have out: "held strict v cf k e \<Longrightarrow> tracked_at u cf k = None" for strict cf k e
  proof (rule ccontr)
    assume h: "held strict v cf k e" and "tracked_at u cf k \<noteq> None"
    then have "same_counts (tracked_at T cf k) (tracked_at S cf k)"
      unfolding same_counts_iff [OF T S' S(2)] u(2) by blast
    with h show False
      by (auto simp: held_def v(2) sub_info_def same_counts_def live_info_def Let_def split: option.splits)
  qed
  have "fst ` set u \<subseteq> fst ` set T"
  proof
    fix cf assume "cf \<in> fst ` set u"
    then obtain ks where ks: "map_of u cf = Some ks" by (metis map_of_eq_None_iff not_Some_eq)
    with shape have "ks \<noteq> []" unfolding shape_ok_def by blast
    then obtain key i ks' where "ks = (key, i) # ks'" by (cases ks) auto
    with ks have "tracked_at u cf key \<noteq> None" by (simp add: tracked_at_def)
    then have "0 < reads_of T cf key + writes_of T cf key" unfolding u(2) by simp
    then have "tracked_at T cf key \<noteq> None" by (simp only: tracked_counts [OF T])
    then show "cf \<in> fst ` set T" using tracked_at_fresh [of T cf key] by (metis map_of_eq_None_iff)
  qed
  then show ?thesis
    by (intro exI [of _ u] exI [of _ v] conjI allI impI)
      (rule u(1) shape v(1) Subtract_keys_fst [OF v(1)] | assumption | erule sub out)+
qed

lemma pt_inv_RollbackToSavePoint:
  assumes inv: "pt_inv (pe_hash env) strict w"
  shows "\<exists>s w'. PTxn_RollbackToSavePoint ops env w = Returned (s, w') \<and> pt_inv (pe_hash env) strict w'"
proof -
  obtain t r where w: "w = (t, r)" by force
  let ?T = "tracked_locks t" and ?txn = "txn_id (pt_lock t)" and ?h = "pe_hash env"
  have tb: "tb_inv t" and k: "keeps ?h ?txn (held strict ?T) (fst ` set ?T) (pw_plm r)"
    and c: "calls_ok ?h ?txn r" using inv by (simp_all add: pt_inv_def w)
  have T: "trk_inv ?T" using tb by (simp add: tb_inv_def)
  from step_Rollback [OF tb, of ops] obtain s t' where
    rb: "TxnBase_RollbackToSavePoint ops t = Some (s, t')" "tb_inv t'" by blast
  show ?thesis
  proof (cases "\<not> has_state STARTED w \<or> save_points t = []")
    case True
    then show ?thesis
    proof
      assume "\<not> has_state STARTED w"
      with inv show ?thesis by (simp add: PTxn_RollbackToSavePoint_def)
    next
      assume "save_points t = []"
      with inv show ?thesis by (cases "has_state STARTED w") (simp_all add: PTxn_RollbackToSavePoint_def w TxnBase_RollbackToSavePoint_def)
    qed
  next
    case False
    then obtain sp sps where sp: "save_points t = sp # sps" by (cases "save_points t") auto
    obtain u v where u: "GetTrackedLocksSinceSavePoint ?T (new_locks sp) = Some u" "shape_ok u" "fst ` set u \<subseteq> fst ` set ?T"
      and v: "Subtract ?T (new_locks sp) = Some v" "fst ` set v \<subseteq> fst ` set ?T"
      and h: "\<And>cf k e. held strict v cf k e \<Longrightarrow> held strict ?T cf k e" "\<And>cf k e. held strict v cf k e \<Longrightarrow> tracked_at u cf k = None"
      using rollback_trackers [OF T tb_inv_le(3,4) [OF tb sp]] by metis
    have t': "tracked_locks t' = v" "pt_lock t' = pt_lock t"
      using rb(1) v(1) by (auto simp: TxnBase_RollbackToSavePoint_def sp Let_def split: prod.splits)
    have "keeps ?h ?txn (held strict v) (fst ` set ?T) (pw_plm r)" by (rule keeps_mono [OF k _ order_refl]) (rule h)
    moreover have "alist_ok u" "\<forall>cf ks. map_of u cf = Some ks \<longrightarrow> alist_ok ks" using u(2) by (auto simp: shape_ok_def)
    moreover have "\<forall>cf k e. held strict v cf k e \<longrightarrow> tracked_at u cf k = None" using h(2) by blast
    ultimately obtain r' where r': "PTxnDB_UnLock env u (t, r) = Returned (t, r')"
      "keeps ?h ?txn (held strict v) (fst ` set ?T) (pw_plm r')" "pw_calls r' = pw_calls r"
      using PTxnDB_UnLock_keeps [OF _ _ _ u(3), of env ?txn "held strict v" r t] by metis
    have "keeps ?h ?txn (held strict v) (fst ` set v) (pw_plm r')" by (rule keeps_mono [OF r'(2) _ v(2)])
    with False r' rb u(1) c t' show ?thesis
      by (simp add: PTxn_RollbackToSavePoint_def w sp pt_inv_def calls_ok_def)
  qed
qed

lemma PTxn_Clear_ok:
  fixes w :: "('b, 'c, 'd) pt_world"
  assumes inv: "pt_inv (pe_hash env) strict w"
  shows "\<exists>r'. PTxn_Clear ops env w = Returned (TxnBase_Clear ops (fst w), r') \<and>
    pt_inv (pe_hash env) strict (TxnBase_Clear ops (fst w), r') \<and>
    (\<forall>cf k. plm_lock (pe_hash env) (pw_plm r') cf k =
       (if tracked_at (tracked_locks (fst w)) cf k \<noteq> None
        then release_opt (txn_id (pt_lock (fst w))) (plm_lock (pe_hash env) (pw_plm (snd w)) cf k)
        else plm_lock (pe_hash env) (pw_plm (snd w)) cf k)) \<and>
    r' = (snd w)\<lparr>pw_plm := pw_plm r'\<rparr>"
proof -
  obtain t r where w: "w = (t, r)" by force
  let ?T = "tracked_locks t" and ?txn = "txn_id (pt_lock t)" and ?h = "pe_hash env"
  have tb: "tb_inv t" and k: "keeps ?h ?txn (held strict ?T) (fst ` set ?T) (pw_plm r)"
    and c: "calls_ok ?h ?txn r" using inv by (simp_all add: pt_inv_def w)
  have T: "alist_ok ?T" "\<forall>cf keys. map_of ?T cf = Some keys \<longrightarrow> alist_ok keys"
    using tb trk_inv_alist [of ?T] by (simp_all add: tb_inv_def)
  have "keeps ?h ?txn (\<lambda>_ _ _. False) (fst ` set ?T) (pw_plm r)" by (rule keeps_mono [OF k]) simp_all
  from PTxnDB_UnLock_keeps [OF this T order_refl, of t] obtain r' where
    r': "PTxnDB_UnLock env ?T (t, r) = Returned (t, r')" "keeps ?h ?txn (\<lambda>_ _ _. False) (fst ` set ?T) (pw_plm r')"
    "pw_calls r' = pw_calls r" "\<forall>cf k. plm_lock ?h (pw_plm r') cf k =
       (if tracked_at ?T cf k \<noteq> None then release_opt ?txn (plm_lock ?h (pw_plm r) cf k) else plm_lock ?h (pw_plm r) cf k)"
    by blast
  have "r' = r\<lparr>pw_plm := pw_plm r'\<rparr>"
    using r'(1) by (auto simp: PTxnDB_UnLock_def defined_or_def split: option.splits)
  moreover have "\<not> held strict PointLockTracker_new cf k e" for cf k e
    by (simp add: held_def tracked_at_def PointLockTracker_new_def)
  moreover have "pt_lock (TxnBase_Clear ops t) = pt_lock t"
    by (simp add: TxnBase_Clear_def InitWriteBatch_def Let_def)
  ultimately show ?thesis
    using r' c step_Clear(1) [of ops t]
    by (intro exI [of _ r']) (simp add: w PTxn_Clear_def pt_inv_def keeps_def calls_ok_def PointLockTracker_new_def)
qed

section \<open>The steps of a transaction and of the others\<close>

text \<open>
  One rule per operation of the transaction, and one for the other threads, which may do anything to
  the world that spares the locks of this transaction. A number of requests per key below \<open>2 ^ 32\<close> is
  the bound of the 32-bit counts. With \<open>strict\<close> no shared key is upgraded with validation.
\<close>

inductive pt_step ::
  "('b, 'c, 'd) db_ops \<Rightarrow> plm_env \<Rightarrow> bool \<Rightarrow> ('b, 'c, 'd) pt_world \<Rightarrow> ('b, 'c, 'd) pt_world \<Rightarrow> bool"
  for ops env strict where
  step_TryLock: "PTxn_TryLock ops env cf key ro excl do_validate assume_tracked w = Returned (s, w') \<Longrightarrow>
     room_for (tracked_locks (fst w)) 1 \<Longrightarrow> (strict \<Longrightarrow> \<not> validated_upgrade ops cf key excl do_validate (fst w)) \<Longrightarrow>
     pt_step ops env strict w w'"
| step_Undo: "UndoGetForUpdate ops (PTxn_UnlockGetForUpdate ops env) cf key w = Returned w' \<Longrightarrow> pt_step ops env strict w w'"
| step_SetSavePoint: "pt_step ops env strict (t, r) (SetSavePoint ops t, r)"
| step_PopSavePoint: "pt_step ops env strict (t, r) (snd (PopSavePoint ops t), r)"
| step_RollbackToSavePoint: "PTxn_RollbackToSavePoint ops env w = Returned (s, w') \<Longrightarrow> pt_step ops env strict w w'"
| step_Clear: "PTxn_Clear ops env w = Returned w' \<Longrightarrow> pt_step ops env strict w w'"
| step_batch: "pt_step ops env strict (t, r) (snd (batch_op ops op counter t), r)"
| step_others: "spares (pe_hash env) (txn_id (pt_lock t)) (pw_plm r) (pw_plm r') \<Longrightarrow>
     calls_ok (pe_hash env) (txn_id (pt_lock t)) r' \<Longrightarrow> pt_step ops env strict (t, r) (t, r')"

lemma pt_lock_frame:
  "pt_lock (SetSavePoint ops t) = pt_lock t" "pt_lock (snd (PopSavePoint ops t)) = pt_lock t"
  "pt_lock (snd (batch_op ops op counter t)) = pt_lock t"
  "tracked_locks (SetSavePoint ops t) = tracked_locks t" "tracked_locks (snd (PopSavePoint ops t)) = tracked_locks t"
  "same_locks t (snd (batch_op ops op counter t))"
  by (cases counter; simp add: SetSavePoint_def PopSavePoint_def batch_op_def same_locks_def Let_def
      split: list.split prod.split)+

lemma pt_step_inv:
  assumes "pt_step ops env strict w w'" "pt_inv (pe_hash env) strict w"
  shows "pt_inv (pe_hash env) strict w'"
  using assms
proof cases
  case (step_TryLock cf key ro excl do_validate assume_tracked s)
  with PTxn_TryLock_keeps [OF assms(2) _ _ step_TryLock(1)] show ?thesis by blast
next
  case (step_Undo cf key)
  with pt_inv_Undo [OF assms(2), of ops cf key] show ?thesis by auto
next
  case (step_SetSavePoint t r)
  with assms(2) step_SetSavePoint(1) show ?thesis by (simp add: pt_inv_def pt_lock_frame Save_Points.step_SetSavePoint(1))
next
  case (step_PopSavePoint t r)
  with assms(2) show ?thesis by (simp add: pt_inv_def pt_lock_frame step_Pop(1))
next
  case (step_RollbackToSavePoint s)
  with pt_inv_RollbackToSavePoint [OF assms(2), of ops] show ?thesis by auto
next
  case step_Clear
  with PTxn_Clear_ok [OF assms(2), of ops] show ?thesis by auto
next
  case (step_batch t r op counter)
  with assms(2) show ?thesis
    using pt_inv_same [of "pe_hash env" strict t r "snd (batch_op ops op counter t)" r] pt_lock_frame(6) [of t ops op counter]
    by (simp add: pt_inv_def)
next
  case (step_others t r r')
  with assms(2) keeps_spares [of "pe_hash env" _ _ _ "pw_plm r" "pw_plm r'"] show ?thesis by (simp add: pt_inv_def)
qed

lemma pt_steps_inv:
  assumes "(pt_step ops env strict)\<^sup>*\<^sup>* w w'" "pt_inv (pe_hash env) strict w"
  shows "pt_inv (pe_hash env) strict w'"
  using assms by (induction rule: rtranclp_induct) (auto intro: pt_step_inv)

lemma SetSnapshot_frame:
  "tracked_locks (fst (SetSnapshot ops w)) = tracked_locks (fst w)" "save_points (fst (SetSnapshot ops w)) = save_points (fst w)"
  "pw_plm (snd (SetSnapshot ops w)) = pw_plm (snd w)" "pw_calls (snd (SetSnapshot ops w)) = pw_calls (snd w)"
  by (simp_all add: SetSnapshot_def SetSnapshotInternal_def split_beta)

lemma registry_frame:
  "pw_plm (snd (GenTxnID r)) = pw_plm r" "pw_calls (snd (GenTxnID r)) = pw_calls r"
  "pw_plm (InsertExpirableTransaction i a r) = pw_plm r" "pw_calls (InsertExpirableTransaction i a r) = pw_calls r"
  by (simp_all add: GenTxnID_def InsertExpirableTransaction_def)

lemma PTxn_Initialize_frame:
  "tracked_locks (fst (PTxn_Initialize ops env txn_options w)) = tracked_locks (fst w)"
  "save_points (fst (PTxn_Initialize ops env txn_options w)) = save_points (fst w)"
  "pw_plm (snd (PTxn_Initialize ops env txn_options w)) = pw_plm (snd w)"
  "pw_calls (snd (PTxn_Initialize ops env txn_options w)) = pw_calls (snd w)"
  by (simp_all add: PTxn_Initialize_def Let_def split_beta set_state_def SetSnapshot_frame registry_frame
      if_distrib [of fst] if_distrib [of snd] if_distrib [of tracked_locks] if_distrib [of save_points]
      if_distrib [of pw_plm] if_distrib [of pw_calls] cong: if_cong)

lemma PTxn_new_frame:
  "tracked_locks (fst (PTxn_new ops env now wo txn_options self r)) = PointLockTracker_new"
  "save_points (fst (PTxn_new ops env now wo txn_options self r)) = []"
  "pw_plm (snd (PTxn_new ops env now wo txn_options self r)) = pw_plm r"
  "pw_calls (snd (PTxn_new ops env now wo txn_options self r)) = pw_calls r"
  by (simp_all add: PTxn_new_def PTxn_Initialize_frame TransactionBase_new_def InitWriteBatch_def TransactionBase.defs
      PTxn.defs Let_def)

lemma pt_inv_new:
  assumes "plm_ok hash (pw_plm r)" "calls_ok hash (txn_id (pt_lock (fst (PTxn_new ops env now wo txn_options self r)))) r"
  shows "pt_inv hash strict (PTxn_new ops env now wo txn_options self r)"
proof -
  have "trk_inv PointLockTracker_new" by (rule lt.compact_inv) simp
  then show ?thesis
    using assms PTxn_new_frame [of ops env now wo txn_options self r]
    by (cases "PTxn_new ops env now wo txn_options self r")
      (simp add: pt_inv_def tb_inv_def calls_ok_def keeps_def held_def tracked_at_def PointLockTracker_new_def)
qed

section \<open>Properties\<close>


abbreviation demo_env :: plm_env where
  "demo_env \<equiv> \<lparr>pe_hash = \<lambda>_. 7, pe_thread = 0, pe_options = TransactionDBOptions_new\<rparr>"

abbreviation demo_call :: "'x lock_call" where
  "demo_call \<equiv> \<lparr>lc_start_time = 10, lc_try_lock = True, lc_now = 10, lc_wakes = []\<rparr>"

abbreviation demo_pworld :: "(u64 \<times> batch_event list list) pworld" where
  "demo_pworld \<equiv> \<lparr>w_db = (5, []), txn_states = \<lambda>_. None, expirable_transactions = [], transactions = [],
     txn_id_counter = 1, dangling_access = False, pw_plm = AddColumnFamily (PointLockManager_new 4 0 5) 0,
     pw_calls = [demo_call, demo_call, demo_call]\<rparr>"

abbreviation demo_ptxn where
  "demo_ptxn ops \<equiv> PTxn_new ops demo_env 1 WriteOptions_new (TransactionOptions_new\<lparr>to_set_snapshot := True\<rparr>) 77 demo_pworld"

lemma demo_pworld_ok: "plm_ok (pe_hash demo_env) (pw_plm demo_pworld)" "calls_ok hash txn demo_pworld"
  using plm_ok_Add [OF plm_ok_new [of 4 "\<lambda>_. 7" 0 5], of 0] by (simp_all add: calls_ok_def)

lemma demo_ptxn_ok:
  "room_for (tracked_locks (fst (demo_ptxn list_db))) 1"
  "\<not> validated_upgrade list_db None key excl do_validate (fst (demo_ptxn list_db))"
  by (simp add: PTxn_new_frame room_for_def)
    (simp add: PTxn_new_frame validated_upgrade_def tracked_at_def PointLockTracker_new_def)



abbreviation conflict_db where
  "conflict_db \<equiv> list_db\<lparr>db_GetLatestSequenceForKey := \<lambda>_ _ _ _ _. (OK, 9, [], True)\<rparr>"

text \<open>
  A transaction that has locked \<open>''k''\<close> as shared, without validation, after a write that its snapshot
  does not see.
\<close>

definition shared_reader :: "((batch_write list \<times> nat list, batch_event list, u64 \<times> batch_event list list) pt_world) outcome" where
  "shared_reader =
     (let (t, r) = demo_ptxn list_db
      in bind_outcome (PTxn_TryLock list_db demo_env None ''k'' True False False False (t, r\<lparr>w_db := (9, [])\<rparr>))
           (\<lambda>(s, w). Returned w))"


end
