(* ===== verification/Txn_Lifecycle.thy ===== *)
theory Txn_Lifecycle
  imports Txn_Locks
begin

text \<open>
  The life of a transaction: which states it moves through, what a commit, a prepare and a rollback do
  to its locks, its name and the database, and what is left to a transaction that is over. The write
  policy is the one of \<^verbatim>\<open>WriteCommittedTxn\<close>.
\<close>

section \<open>States\<close>

lemma state_simps [simp]:
  "has_state s (set_state s' w) \<longleftrightarrow> s = s'" "set_state s (set_state s' w) = set_state s w"
  "fst (set_state s w) = fst w" "pw_plm (snd (set_state s w)) = pw_plm (snd w)" "pw_calls (snd (set_state s w)) = pw_calls (snd w)"
  "w_db (snd (set_state s w)) = w_db (snd w)" "transactions (snd (set_state s w)) = transactions (snd w)"
  "expirable_transactions (snd (set_state s w)) = expirable_transactions (snd w)"
  by (cases w; auto simp: has_state_def set_state_def)+

lemma has_state_unique: "has_state s w \<Longrightarrow> has_state s' w \<longleftrightarrow> s' = s"
  by (auto simp: has_state_def split_beta)

section \<open>What the write-committed policy leaves alone\<close>

text \<open>
  The state, the locks and the registries: only the batches, the log number, the id, the snapshot and
  the database change.
\<close>

definition only_writes :: "('b, 'c, 'd) pt_world \<Rightarrow> ('b, 'c, 'd) pt_world \<Rightarrow> bool" where
  "only_writes = (\<lambda>(t, r) (t', r'). same_locks t t' \<and> pt_self t' = pt_self t \<and> pt_lock t' = pt_lock t \<and>
     txn_name t' = txn_name t \<and> txn_states r' = txn_states r \<and> expirable_transactions r' = expirable_transactions r \<and>
     transactions r' = transactions r \<and> txn_id_counter r' = txn_id_counter r \<and> dangling_access r' = dangling_access r \<and>
     pw_plm r' = pw_plm r \<and> pw_calls r' = pw_calls r)"

lemma only_writes_updates [simp]:
  "only_writes w (t\<lparr>write_batch := b\<rparr>, r) = only_writes w (t, r)" "only_writes (t\<lparr>write_batch := b\<rparr>, r) w = only_writes (t, r) w"
  "only_writes w (t\<lparr>commit_time_batch := c\<rparr>, r) = only_writes w (t, r)"
  "only_writes (t\<lparr>commit_time_batch := c\<rparr>, r) w = only_writes (t, r) w"
  "only_writes w (t\<lparr>seq_id := n\<rparr>, r) = only_writes w (t, r)" "only_writes w (t\<lparr>log_number := l\<rparr>, r) = only_writes w (t, r)"
  by (simp_all add: only_writes_def same_locks_def split_beta)

lemma WriteImpl_frame: "WriteImpl ops wo batch args cb w = (s, log, seq, w') \<Longrightarrow> only_writes w w'"
  by (cases w) (auto simp: WriteImpl_def only_writes_def same_locks_def split: prod.splits)

lemma only_writes_refl [simp]: "only_writes w w"
  by (cases w) (simp add: only_writes_def)

lemma only_writes_trans: "only_writes w w' \<Longrightarrow> only_writes w' w'' \<Longrightarrow> only_writes w w''"
  by (cases w; cases w'; cases w'') (auto simp: only_writes_def same_locks_def)

lemma commit_write_frame: "commit_write ops batch log w = (s, w') \<Longrightarrow> only_writes w w'"
  by (cases w) (auto simp: commit_write_def Let_def dest!: WriteImpl_frame split: if_splits prod.splits)

lemma CommitWithoutPrepare_frame:
  "CommitWithoutPrepareInternal (WriteCommitted ops) w = (s, w') \<Longrightarrow> only_writes w w'"
  by (cases w) (auto simp: WriteCommitted_def WCTxn_CommitWithoutPrepareInternal_def Let_def
      dest!: commit_write_frame split: if_splits prod.splits)

lemma Commit_frame: "CommitInternal (WriteCommitted ops) w = (s, w') \<Longrightarrow> only_writes w w'"
  by (cases w) (auto simp: WriteCommitted_def WCTxn_CommitInternal_def Let_def
      dest!: commit_write_frame split: if_splits prod.splits)

lemma Prepare_frame: "PrepareInternal (WriteCommitted ops) w = (s, w') \<Longrightarrow> only_writes w w'"
  by (cases w) (auto simp: WriteCommitted_def WCTxn_PrepareInternal_def Let_def
      dest!: WriteImpl_frame split: if_splits prod.splits)

lemma Rollback_frame: "RollbackInternal (WriteCommitted ops) w = (s, w') \<Longrightarrow> only_writes w w'"
  by (cases w) (auto simp: WriteCommitted_def WCTxn_RollbackInternal_def Let_def
      dest!: WriteImpl_frame split: if_splits prod.splits)

lemma CommitBatch_frame: "CommitBatchInternal (WriteCommitted ops) c w = (s, w') \<Longrightarrow> only_writes w w'"
  by (cases w) (auto simp: WriteCommitted_def WCTxn_CommitBatchInternal_def Let_def
      dest!: WriteImpl_frame split: if_splits prod.splits)

lemmas policy_frames = CommitWithoutPrepare_frame Commit_frame Prepare_frame Rollback_frame CommitBatch_frame

lemma only_writes_state: "only_writes w w' \<Longrightarrow> has_state s w' \<longleftrightarrow> has_state s w"
  by (cases w; cases w') (simp add: only_writes_def has_state_def)

lemma only_writes_inv: "only_writes w w' \<Longrightarrow> pt_inv hash strict w \<Longrightarrow> pt_inv hash strict w'"
  unfolding only_writes_def split_beta
  by (rule pt_inv_same [of hash strict "fst w" "snd w" "fst w'" "snd w'", unfolded prod.collapse])
    (simp_all add: pt_inv_def calls_ok_def split_beta)

section \<open>Commit and rollback\<close>

lemma bind_outcome_assoc: "bind_outcome x (\<lambda>y. bind_outcome (f y) g) = bind_outcome (bind_outcome x f) g"
  by (cases x) auto

lemma commit_unprepared_eq:
  assumes "has_state STARTED w" "\<not> PTxn_IsExpired now (fst w)" "0 < lt_expiration_time (pt_lock (fst w)) \<or> skip_prepare (fst w)"
    and "wb_Count ops (commit_time_batch (fst w)) = 0" "log_number (fst w) = 0"
    and "CommitWithoutPrepareInternal pol (set_state AWAITING_COMMIT w) = (s, w1)"
  shows "PTxn_Commit ops env pol now w =
    bind_outcome (bind_outcome (if txn_name (fst w1) \<noteq> '''' then unregister w1 else Returned w1) (PTxn_Clear ops env))
      (\<lambda>w. Returned (s, if ok s then set_state COMMITTED w else w))"
  using assms has_state_unique [OF assms(1)]
  by (cases "0 < lt_expiration_time (pt_lock (fst w))")
    (simp_all add: PTxn_Commit_def Let_def cas_state_def flip: bind_outcome_assoc)

lemma commit_prepared_eq:
  assumes "has_state PREPARED w" "lt_expiration_time (pt_lock (fst w)) = 0"
    and "CommitInternal pol (set_state AWAITING_COMMIT w) = (s, w1)" "ok s"
  shows "PTxn_Commit ops env pol now w =
    bind_outcome (bind_outcome (unregister (prep_section_flushed ops w1)) (PTxn_Clear ops env))
      (\<lambda>w. Returned (s, set_state COMMITTED w))"
  using assms has_state_unique [OF assms(1)]
  by (simp add: PTxn_Commit_def PTxn_IsExpired_def Let_def flip: bind_outcome_assoc)

definition registered :: "('b, 'c, 'd) pt_world \<Rightarrow> bool" where
  "registered = (\<lambda>(t, r). map_of (transactions r) (txn_name t) \<noteq> None)"

definition released :: "(string \<Rightarrow> u64) \<Rightarrow> ('b, 'c, 'd) pt_world \<Rightarrow> ('b, 'c, 'd) pt_world \<Rightarrow> bool" where
  "released hash = (\<lambda>(t, r) (t', r'). tracked_locks t' = PointLockTracker_new \<and> save_points t' = [] \<and>
     (\<forall>cf k. plm_lock hash (pw_plm r') cf k =
        (if tracked_at (tracked_locks t) cf k \<noteq> None
         then release_opt (txn_id (pt_lock t)) (plm_lock hash (pw_plm r) cf k) else plm_lock hash (pw_plm r) cf k)))"

lemma unregister_ok:
  "registered (t, r) \<Longrightarrow> unregister (t, r) = Returned (t, r\<lparr>transactions := AList.delete (txn_name t) (transactions r)\<rparr>)"
  by (simp add: unregister_def UnregisterTransaction_def registered_def)

lemma released_set_state [simp]:
  "released hash w (set_state s w') = released hash w w'" "registered (set_state s w') = registered w'"
  by (cases w; cases w'; simp add: released_def registered_def set_state_def)+

text \<open>Taking the name off the registry, if there is one, and clearing the transaction.\<close>

lemma finish_ok:
  fixes w :: "('b, 'c, 'd) pt_world"
  assumes inv: "pt_inv (pe_hash env) strict w" and named: "name \<longrightarrow> registered w"
  shows "\<exists>w'. bind_outcome (if name then unregister w else Returned w) (PTxn_Clear ops env) = Returned w' \<and>
    released (pe_hash env) w w' \<and> w_db (snd w') = w_db (snd w) \<and> txn_states (snd w') = txn_states (snd w) \<and>
    pt_self (fst w') = pt_self (fst w) \<and> seq_id (fst w') = seq_id (fst w) \<and> txn_name (fst w') = txn_name (fst w) \<and>
    (name \<longrightarrow> \<not> registered w') \<and> pt_lock (fst w') = pt_lock (fst w)"
proof -
  obtain t r where w: "w = (t, r)" by force
  define r1 where "r1 = (if name then r\<lparr>transactions := AList.delete (txn_name t) (transactions r)\<rparr> else r)"
  have u: "(if name then unregister w else Returned w) = Returned (t, r1)"
    using named by (simp add: w r1_def unregister_ok)
  have "pt_inv (pe_hash env) strict (t, r1)" using inv by (simp add: w r1_def pt_inv_def calls_ok_def)
  from PTxn_Clear_ok [OF this, of ops] obtain r' where
    c: "PTxn_Clear ops env (t, r1) = Returned (TxnBase_Clear ops t, r')" and
    l: "\<forall>cf k. plm_lock (pe_hash env) (pw_plm r') cf k =
       (if tracked_at (tracked_locks t) cf k \<noteq> None
        then release_opt (txn_id (pt_lock t)) (plm_lock (pe_hash env) (pw_plm r1) cf k)
        else plm_lock (pe_hash env) (pw_plm r1) cf k)" and r': "r' = r1\<lparr>pw_plm := pw_plm r'\<rparr>" by auto
  have eq: "w_db r' = w_db r" "txn_states r' = txn_states r" "transactions r' = transactions r1"
    by (subst r', simp add: r1_def)+
  have self: "pt_self (TxnBase_Clear ops t) = pt_self t" "pt_lock (TxnBase_Clear ops t) = pt_lock t"
    by (simp_all add: TxnBase_Clear_def InitWriteBatch_def Let_def)
  have "pw_plm r1 = pw_plm r" by (simp add: r1_def)
  with u c l eq self show ?thesis
    by (intro exI [of _ "(TxnBase_Clear ops t, r')"]) (auto simp: w released_def registered_def r1_def delete_conv')
qed

lemma commit_write_plain:
  assumes "\<not> snapshot_needed t"
    and "db_WriteImpl ops (write_options t) batch (plain_write log) None (snapshot t, w_db r) = (s, l, seq, sn, d)"
  shows "commit_write ops batch log (t, r) = (s, if ok s then t\<lparr>seq_id := seq\<rparr> else t, r\<lparr>w_db := d\<rparr>)"
  using assms by (simp add: commit_write_def WriteImpl_def Let_def)

text \<open>A commit without prepare, up to its write.\<close>

lemma commit_unprepared_write:
  assumes "\<not> snapshot_needed t" "\<not> wb_HasKeyWithTimestamp ops (wbwi_GetWriteBatch ops (write_batch t))"
    and "db_WriteImpl ops (write_options t) (wbwi_GetWriteBatch ops (write_batch t)) (plain_write 0) None (snapshot t, w_db r) =
      (s, l, seq, sn, d)"
  shows "CommitWithoutPrepareInternal (WriteCommitted ops) (set_state st (t, r)) =
    (s, if ok s then t\<lparr>seq_id := seq\<rparr> else t, (snd (set_state st (t, r)))\<lparr>w_db := d\<rparr>)"
  using assms commit_write_plain [of t ops _ 0 "snd (set_state st (t, r))" s l seq sn d]
  by (simp add: WriteCommitted_def WCTxn_CommitWithoutPrepareInternal_def set_state_def status_simps)

lemma set_state_inv: "pt_inv hash strict (set_state s w) \<longleftrightarrow> pt_inv hash strict w"
  by (cases w) (simp add: set_state_def pt_inv_def calls_ok_def)

lemma has_state_cong: "txn_states (snd w') (pt_self (fst w')) = txn_states (snd w) (pt_self (fst w)) \<Longrightarrow> has_state s w' = has_state s w"
  by (simp add: has_state_def split_beta)

lemma commit_unprepared_run:
  assumes "pt_inv (pe_hash env) strict (t, r)" "has_state STARTED (t, r)" "\<not> PTxn_IsExpired now t"
    and "0 < lt_expiration_time (pt_lock t) \<or> skip_prepare t"
    and "wb_Count ops (commit_time_batch t) = 0" "log_number t = 0" "txn_name t \<noteq> '''' \<longrightarrow> registered (t, r)"
    and "\<not> snapshot_needed t" "\<not> wb_HasKeyWithTimestamp ops (wbwi_GetWriteBatch ops (write_batch t))"
    and "db_WriteImpl ops (write_options t) (wbwi_GetWriteBatch ops (write_batch t)) (plain_write 0) None (snapshot t, w_db r) =
      (s, l, seq, sn, d)"
  shows "\<exists>w'. PTxn_Commit ops env (WriteCommitted ops) now (t, r) = Returned (s, w') \<and>
    has_state (if ok s then COMMITTED else AWAITING_COMMIT) w' \<and> w_db (snd w') = d \<and> (ok s \<longrightarrow> seq_id (fst w') = seq) \<and>
    released (pe_hash env) (t, r) w' \<and> (txn_name t \<noteq> '''' \<longrightarrow> \<not> registered w') \<and> txn_name (fst w') = txn_name t \<and>
    pt_self (fst w') = pt_self t"
proof -
  define u where "u = (if ok s then t\<lparr>seq_id := seq\<rparr> else t, (snd (set_state AWAITING_COMMIT (t, r)))\<lparr>w_db := d\<rparr>)"
  have u: "w_db (snd u) = d" "ok s \<longrightarrow> seq_id (fst u) = seq" "txn_name (fst u) = txn_name t"
    "registered u = registered (t, r)" "released (pe_hash env) u = released (pe_hash env) (t, r)" "has_state AWAITING_COMMIT u" "pt_self (fst u) = pt_self t"
    by (simp_all add: u_def registered_def released_def set_state_def has_state_def fun_eq_iff)
  have cw: "CommitWithoutPrepareInternal (WriteCommitted ops) (set_state AWAITING_COMMIT (t, r)) = (s, u)"
    using commit_unprepared_write [OF assms(8,9,10), of AWAITING_COMMIT] by (simp add: u_def)
  have inv: "pt_inv (pe_hash env) strict u"
    using only_writes_inv [OF CommitWithoutPrepare_frame [OF cw]] assms(1) by (simp add: set_state_inv)
  have reg: "txn_name t \<noteq> '''' \<longrightarrow> registered u" using assms(7) by (simp add: u)
  obtain w' where w': "bind_outcome (if txn_name t \<noteq> '''' then unregister u else Returned u) (PTxn_Clear ops env) = Returned w'"
    "released (pe_hash env) u w'" "w_db (snd w') = w_db (snd u)" "txn_states (snd w') = txn_states (snd u)"
    "pt_self (fst w') = pt_self (fst u)" "seq_id (fst w') = seq_id (fst u)" "txn_name (fst w') = txn_name (fst u)"
    "txn_name t \<noteq> '''' \<longrightarrow> \<not> registered w'"
    using finish_ok [OF inv reg, of ops] by blast
  define w'' where "w'' = (if ok s then set_state COMMITTED w' else w')"
  have "PTxn_Commit ops env (WriteCommitted ops) now (t, r) =
      bind_outcome (bind_outcome (if txn_name (fst u) \<noteq> '''' then unregister u else Returned u) (PTxn_Clear ops env))
        (\<lambda>w. Returned (s, if ok s then set_state COMMITTED w else w))"
    by (rule commit_unprepared_eq [OF assms(2) _ _ _ _ cw]) (use assms(3-6) in simp_all)
  then have "PTxn_Commit ops env (WriteCommitted ops) now (t, r) = Returned (s, w'')"
    unfolding u(3) w'(1) by (simp add: w''_def)
  moreover have "has_state AWAITING_COMMIT w'" using has_state_cong [of w' u] w'(4,5) u(6) by simp
  moreover have "released (pe_hash env) (t, r) w''" using w'(2) unfolding u(5) by (simp add: w''_def)
  ultimately show ?thesis using w'(3-8) u(1-3,7) by (intro exI [of _ w'']) (simp add: w''_def)
qed

section \<open>A concrete transaction\<close>

text \<open>Named \<open>''x''\<close>, with the key \<open>''k''\<close> locked.\<close>

definition demo_named :: "((batch_write list \<times> nat list, batch_event list, u64 \<times> batch_event list list) pt_world) outcome" where
  "demo_named = bind_outcome (PTxn_TryLock list_db demo_env None ''k'' False True True False (demo_ptxn list_db))
     (\<lambda>(s, w). Returned (snd (PTxn_SetName ''x'' w)))"

lemma SetName_inv: "pt_inv hash strict w \<Longrightarrow> pt_inv hash strict (snd (PTxn_SetName name w))"
  by (cases w) (simp add: PTxn_SetName_def RegisterTransaction_def pt_inv_def calls_ok_def tb_inv_def)

lemma demo_named_ok:
  "\<exists>t r. demo_named = Returned (t, r) \<and> pt_inv (pe_hash demo_env) True (t, r) \<and> has_state STARTED (t, r) \<and>
    registered (t, r) \<and> txn_name t = ''x'' \<and> \<not> PTxn_IsExpired 5 t \<and> skip_prepare t \<and> log_number t = 0 \<and>
    commit_time_batch t = [] \<and> \<not> snapshot_needed t \<and> tracked_at (tracked_locks t) 0 ''k'' \<noteq> None"
proof -
  have "returns demo_named (\<lambda>(t, r). txn_states r (pt_self t) = Some STARTED \<and> map_of (transactions r) (txn_name t) \<noteq> None \<and>
      txn_name t = ''x'' \<and> \<not> PTxn_IsExpired 5 t \<and> skip_prepare t \<and> log_number t = 0 \<and> commit_time_batch t = [] \<and>
      \<not> snapshot_needed t \<and> some_is (tracked_at (tracked_locks t) 0 ''k'') (\<lambda>_. True))"
    by code_simp
  then obtain t r where d: "demo_named = Returned (t, r)"
    and t: "has_state STARTED (t, r)" "registered (t, r)" "txn_name t = ''x''"
      "\<not> PTxn_IsExpired 5 t" "skip_prepare t" "log_number t = 0" "commit_time_batch t = []" "\<not> snapshot_needed t"
      "tracked_at (tracked_locks t) 0 ''k'' \<noteq> None"
    unfolding returns_iff some_is_iff by (auto simp: has_state_def registered_def)
  from d obtain s w where tl: "PTxn_TryLock list_db demo_env None ''k'' False True True False (demo_ptxn list_db) = Returned (s, w)"
    and w: "snd (PTxn_SetName ''x'' w) = (t, r)" unfolding demo_named_def by (auto elim: outcome_bindE)
  have "pt_inv (pe_hash demo_env) True w"
    using PTxn_TryLock_keeps [OF pt_inv_new [OF demo_pworld_ok] demo_ptxn_ok(1) _ tl] demo_ptxn_ok(2) by blast
  then have "pt_inv (pe_hash demo_env) True (t, r)" using SetName_inv [of "pe_hash demo_env" True w "''x''"] w by simp
  with d t show ?thesis by blast
qed

abbreviation failing_db where
  "failing_db \<equiv> list_db\<lparr>db_WriteImpl := \<lambda>_ _ _ _ x. (IOError kNone, None, 0, x)\<rparr>"

lemma demo_db_simps:
  "wb_Count list_db [] = 0" "wb_HasKeyWithTimestamp list_db c \<longleftrightarrow> False"
  "db_WriteImpl list_db wo c args None (sn, n, log) = (OK, Some 1, n + 1, sn, n + 1, log @ [c])"
  "wb_Count failing_db [] = 0" "wb_HasKeyWithTimestamp failing_db c \<longleftrightarrow> False"
  "db_WriteImpl failing_db wo c args None x = (IOError kNone, None, 0, x)" "ok OK" "\<not> ok (IOError kNone)"
  by (simp_all add: list_db_def status_simps)

section \<open>Properties\<close>

text \<open>
  C3: Committing. A started transaction that has not expired and needs no prepare commits with exactly
  one write to the database, that of its own batch. When the write succeeds, the commit returns success,
  the state is COMMITTED, the id is the sequence number of the write, every tracked key is released and
  no other lock changes, and the name, if any, can be used again.
\<close>

theorem commit_unprepared:
  assumes "pt_inv (pe_hash env) strict (t, r)" "has_state STARTED (t, r)" "\<not> PTxn_IsExpired now t"
    and "0 < lt_expiration_time (pt_lock t) \<or> skip_prepare t"
    and "wb_Count ops (commit_time_batch t) = 0" "log_number t = 0" "txn_name t \<noteq> '''' \<longrightarrow> registered (t, r)"
    and "\<not> snapshot_needed t" "\<not> wb_HasKeyWithTimestamp ops (wbwi_GetWriteBatch ops (write_batch t))"
    and "db_WriteImpl ops (write_options t) (wbwi_GetWriteBatch ops (write_batch t)) (plain_write 0) None (snapshot t, w_db r) =
      (s, l, seq, sn, d)" "ok s"
  shows "\<exists>w'. PTxn_Commit ops env (WriteCommitted ops) now (t, r) = Returned (s, w') \<and>
    has_state COMMITTED w' \<and> w_db (snd w') = d \<and> seq_id (fst w') = seq \<and> released (pe_hash env) (t, r) w' \<and>
    (txn_name t \<noteq> '''' \<longrightarrow> \<not> registered w')"
  using commit_unprepared_run [OF assms(1-10)] assms(11) by auto

theorem commit_unprepared_witness:
  "\<exists>w w'. demo_named = Returned w \<and> PTxn_Commit list_db demo_env (WriteCommitted list_db) 5 w = Returned (OK, w') \<and>
    has_state COMMITTED w' \<and> length (snd (w_db (snd w'))) = length (snd (w_db (snd w))) + 1 \<and> \<not> registered w'"
proof -
  obtain t r where d: "demo_named = Returned (t, r)" "pt_inv (pe_hash demo_env) True (t, r)" "has_state STARTED (t, r)"
    "registered (t, r)" "txn_name t = ''x''" "\<not> PTxn_IsExpired 5 t" "skip_prepare t" "log_number t = 0"
    "commit_time_batch t = []" "\<not> snapshot_needed t" using demo_named_ok by blast
  obtain n log where n: "w_db r = (n, log)" by force
  obtain w' where "PTxn_Commit list_db demo_env (WriteCommitted list_db) 5 (t, r) = Returned (OK, w')" "has_state COMMITTED w'"
    "w_db (snd w') = (n + 1, log @ [wbwi_GetWriteBatch list_db (write_batch t)])" "\<not> registered w'"
    using commit_unprepared [OF d(2,3,6) _ _ d(8) _ d(10), of list_db, unfolded demo_db_simps d(9) n, OF _ _ _ _ refl]
      d(4,5,7) demo_db_simps(7) by auto
  with d(1) n show ?thesis by (intro exI [of _ "(t, r)"] exI [of _ w']) simp
qed

text \<open>
  C38: A failed commit of a named transaction ends in undefined behaviour. When the write of a commit
  without prepare fails, the name is taken off the registry but the state stays AWAITING_COMMIT; the
  destructor, which tests for COMMITTED, takes the name off again and erases the end iterator of the map.
\<close>

theorem failed_commit_unregisters_twice:
  assumes "pt_inv (pe_hash env) strict (t, r)" "has_state STARTED (t, r)" "\<not> PTxn_IsExpired now t"
    and "0 < lt_expiration_time (pt_lock t) \<or> skip_prepare t"
    and "wb_Count ops (commit_time_batch t) = 0" "log_number t = 0" "txn_name t \<noteq> ''''" "registered (t, r)"
    and "\<not> snapshot_needed t" "\<not> wb_HasKeyWithTimestamp ops (wbwi_GetWriteBatch ops (write_batch t))"
    and "db_WriteImpl ops (write_options t) (wbwi_GetWriteBatch ops (write_batch t)) (plain_write 0) None (snapshot t, w_db r) =
      (s, l, seq, sn, d)" "\<not> ok s"
  shows "\<exists>w'. PTxn_Commit ops env (WriteCommitted ops) now (t, r) = Returned (s, w') \<and> PTxn_destroy env w' = Undefined"
proof -
  obtain t' r' where c: "PTxn_Commit ops env (WriteCommitted ops) now (t, r) = Returned (s, t', r')"
    and w: "has_state AWAITING_COMMIT (t', r')" "released (pe_hash env) (t, r) (t', r')" "\<not> registered (t', r')" "txn_name t' \<noteq> ''''"
    using commit_unprepared_run [OF assms(1-6) _ assms(9-11)] assms(7,8,12) by auto
  have T: "tracked_locks t' = []" using w(2) by (simp add: released_def PointLockTracker_new_def)
  have ul: "PTxnDB_UnLock env (tracked_locks t') (t', r') = Returned (t', r')"
    by (simp add: T PTxnDB_UnLock_def UnLock_tracker_def GetColumnFamilyIterator_def)
  have "\<not> has_state COMMITTED (t', r')" using w(1) by (simp add: has_state_def)
  then have "PTxn_destroy env (t', r') = Undefined"
    using ul w(3,4)
    by (simp add: PTxn_destroy_def Let_def has_state_def RemoveExpirableTransaction_def unregister_def
        UnregisterTransaction_def registered_def)
  with c show ?thesis by blast
qed

theorem failed_commit_unregisters_twice_witness:
  "\<exists>w w'. demo_named = Returned w \<and> PTxn_Commit failing_db demo_env (WriteCommitted failing_db) 5 w = Returned (IOError kNone, w') \<and>
    PTxn_destroy demo_env w' = Undefined"
proof -
  obtain t r where d: "demo_named = Returned (t, r)" "pt_inv (pe_hash demo_env) True (t, r)" "has_state STARTED (t, r)"
    "registered (t, r)" "txn_name t = ''x''" "\<not> PTxn_IsExpired 5 t" "skip_prepare t" "log_number t = 0"
    "commit_time_batch t = []" "\<not> snapshot_needed t" using demo_named_ok by blast
  show ?thesis
    using failed_commit_unregisters_twice [OF d(2,3,6) _ _ d(8) _ d(4,10), of failing_db, unfolded demo_db_simps d(9), OF _ _ _ _ refl]
      d(1,5,7) demo_db_simps(8) by (auto simp del: split_paired_Ex)
qed

lemma prep_flushed_frame:
  "pt_inv hash strict (prep_section_flushed ops w) = pt_inv hash strict w"
  "has_state s (prep_section_flushed ops w) = has_state s w" "registered (prep_section_flushed ops w) = registered w"
  "released hash (prep_section_flushed ops w) = released hash w"
  by (cases w; simp add: prep_section_flushed_def pt_inv_def calls_ok_def has_state_def registered_def released_def fun_eq_iff)+

lemma only_writes_released: "only_writes w w1 \<Longrightarrow> released hash w1 = released hash w"
  by (cases w; cases w1) (auto simp: only_writes_def same_locks_def released_def fun_eq_iff)

lemma only_writes_registered: "only_writes w w1 \<Longrightarrow> registered w1 = registered w"
  by (cases w; cases w1) (simp add: only_writes_def registered_def)

lemma released_from_set_state [simp]: "released hash (set_state s w) = released hash w"
  by (cases w) (simp add: released_def set_state_def fun_eq_iff)

section \<open>The contract of a write policy\<close>

text \<open>
  The virtual methods that write may change the batches, the database, the log number, the id and the
  snapshot only. The two-phase protocol rests on nothing else.
\<close>

locale write_policy =
  fixes pol :: "('c, ('b, 'c, 'd) pt_world) txn_internals"
  assumes Prepare_only_writes: "PrepareInternal pol w = (s, w') \<Longrightarrow> only_writes w w'"
    and CommitWithoutPrepare_only_writes: "CommitWithoutPrepareInternal pol w = (s, w') \<Longrightarrow> only_writes w w'"
    and CommitBatch_only_writes: "CommitBatchInternal pol c w = (s, w') \<Longrightarrow> only_writes w w'"
    and Commit_only_writes: "CommitInternal pol w = (s, w') \<Longrightarrow> only_writes w w'"
    and Rollback_only_writes: "RollbackInternal pol w = (s, w') \<Longrightarrow> only_writes w w'"
begin

lemma prepare_run:
  assumes "PTxn_Prepare pol now w = (s, w')" "ok s"
  shows "has_state PREPARED w' \<and> lt_expiration_time (pt_lock (fst w')) = 0 \<and> same_locks (fst w) (fst w') \<and>
    has_state STARTED w \<and> registered w' = registered w \<and> (pt_inv hash strict w \<longrightarrow> pt_inv hash strict w')"
proof -
  obtain t r where w: "w = (t, r)" by force
  have st: "\<not> ok (InvalidArgument_msg m m')" "\<not> ok (Expired kNone)" for m m' by (simp_all add: status_simps)
  have started: "has_state STARTED w"
    using assms st by (auto simp: PTxn_Prepare_def cas_state_def Let_def split: if_splits)
  define u where "u = (t\<lparr>pt_lock := (pt_lock t)\<lparr>lt_expiration_time := 0\<rparr>\<rparr>, snd (set_state AWAITING_PREPARE (t, r)))"
  obtain w1 where w1: "PrepareInternal pol u = (s, w1)" "w' = set_state PREPARED w1"
    using assms started st
    by (auto simp: PTxn_Prepare_def cas_state_def w u_def set_state_def Let_def split: if_splits prod.splits)
  note o = Prepare_only_writes [OF w1(1)]
  have "pt_lock (fst w1) = pt_lock (fst u)" "same_locks (fst u) (fst w1)" "registered w1 = registered u"
    using o by (cases u; cases w1; simp add: only_writes_def registered_def)+
  moreover have "same_locks t (fst u)" "registered u = registered w"
    by (simp_all add: u_def same_locks_def registered_def w set_state_def)
  moreover have "pt_inv hash strict w1" if "pt_inv hash strict w"
  proof -
    have "pt_inv hash strict u" using that by (simp add: u_def w pt_inv_def calls_ok_def set_state_def tb_inv_def)
    then show ?thesis by (rule only_writes_inv [OF o])
  qed
  ultimately show ?thesis
    using started by (simp add: w1(2) w set_state_inv same_locks_trans u_def)
qed

lemma commit_prepared_run:
  assumes inv: "pt_inv (pe_hash env) strict w" and st: "has_state PREPARED w" "lt_expiration_time (pt_lock (fst w)) = 0"
    and reg: "registered w" and c: "CommitInternal pol (set_state AWAITING_COMMIT w) = (s, w1)" "ok s"
  shows "\<exists>w2. PTxn_Commit ops env pol now w = Returned (s, w2) \<and> has_state COMMITTED w2 \<and>
    released (pe_hash env) w w2 \<and> \<not> registered w2"
proof -
  note o = Commit_only_writes [OF c(1)]
  define u where "u = prep_section_flushed ops w1"
  have "pt_inv (pe_hash env) strict u"
    using only_writes_inv [OF o] inv by (simp add: u_def prep_flushed_frame set_state_inv)
  moreover have "True \<longrightarrow> registered u" using only_writes_registered [OF o] reg by (simp add: u_def prep_flushed_frame)
  ultimately obtain w' where w': "bind_outcome (if True then unregister u else Returned u) (PTxn_Clear ops env) = Returned w'"
    "released (pe_hash env) u w'" "True \<longrightarrow> \<not> registered w'" using finish_ok [of env strict u True ops] by blast
  have "released (pe_hash env) w w'" using w'(2) only_writes_released [OF o] by (simp add: u_def prep_flushed_frame)
  with w' commit_prepared_eq [OF st c] show ?thesis by (simp add: u_def)
qed

lemma rollback_prepared_run:
  assumes inv: "pt_inv (pe_hash env) strict w" and st: "has_state PREPARED w"
    and c: "RollbackInternal pol (set_state AWAITING_ROLLBACK w) = (s, w1)" "ok s"
  shows "\<exists>w2. PTxn_Rollback ops env pol w = Returned (s, w2) \<and> has_state ROLLEDBACK w2 \<and>
    released (pe_hash env) w w2"
proof -
  note o = Rollback_only_writes [OF c(1)]
  define u where "u = prep_section_flushed ops w1"
  have "pt_inv (pe_hash env) strict u"
    using only_writes_inv [OF o] inv by (simp add: u_def prep_flushed_frame set_state_inv)
  then obtain w' where w': "bind_outcome (if False then unregister u else Returned u) (PTxn_Clear ops env) = Returned w'"
    "released (pe_hash env) u w'" using finish_ok [of env strict u False ops] by blast
  have "released (pe_hash env) w w'" using w'(2) only_writes_released [OF o] by (simp add: u_def prep_flushed_frame)
  with w'(1) st c show ?thesis by (simp add: PTxn_Rollback_def u_def)
qed

end

interpretation wc: write_policy "WriteCommitted ops" for ops
  by unfold_locales (fact policy_frames)+



text \<open>
  C4: What is over stays over. A transaction that is committed, rolled back, robbed of its locks, or
  stopped in the middle of one of these, can be neither prepared nor committed nor rolled back nor
  robbed: every such call reports an error and changes nothing. A robbed or an expired transaction is told that it has expired.
\<close>

theorem finished_transactions_inert:
  assumes "has_state st w" "st \<notin> {STARTED, PREPARED}"
  shows "(\<exists>e. PTxn_Prepare pol now w = (e, w) \<and> \<not> ok e) \<and> (\<exists>e. PTxn_Commit ops env pol now w = Returned (e, w) \<and> \<not> ok e) \<and>
    (\<exists>e. PTxn_Rollback ops env pol w = Returned (e, w) \<and> \<not> ok e) \<and>
    TryStealingLocks (pt_self (fst w)) (snd w) = (False, snd w) \<and>
    (st = LOCKS_STOLEN \<or> PTxn_IsExpired now (fst w) \<longrightarrow> PTxn_Commit ops env pol now w = Returned (Expired kNone, w))"
proof -
  note has = has_state_unique [OF assms(1)]
  have ne: "st \<noteq> STARTED" "st \<noteq> PREPARED" using assms(2) by simp_all
  have e: "\<not> ok (InvalidArgument_msg m m')" "\<not> ok (Expired kNone)" for m m' by (simp_all add: status_simps)
  have "\<exists>e. PTxn_Prepare pol now w = (e, w) \<and> \<not> ok e" using ne e by (simp add: PTxn_Prepare_def cas_state_def has)
  moreover have "\<exists>e. PTxn_Commit ops env pol now w = Returned (e, w) \<and> \<not> ok e"
    using ne e by (simp add: PTxn_Commit_def cas_state_def has Let_def)
  moreover have "\<exists>e. PTxn_Rollback ops env pol w = Returned (e, w) \<and> \<not> ok e"
    using ne e by (simp add: PTxn_Rollback_def has)
  moreover have "TryStealingLocks (pt_self (fst w)) (snd w) = (False, snd w)"
    using assms by (simp add: has_state_def TryStealingLocks_def split_beta)
  moreover have "st = LOCKS_STOLEN \<or> PTxn_IsExpired now (fst w) \<longrightarrow> PTxn_Commit ops env pol now w = Returned (Expired kNone, w)"
    using ne by (auto simp: PTxn_Commit_def cas_state_def has Let_def)
  ultimately show ?thesis by blast
qed

theorem finished_transactions_inert_witness:
  "\<exists>w. demo_named = Returned w \<and>
    PTxn_Commit list_db demo_env (WriteCommitted list_db) 5 (set_state LOCKS_STOLEN w) = Returned (Expired kNone, set_state LOCKS_STOLEN w)"
proof -
  obtain w where d: "demo_named = Returned w" using demo_named_ok by blast
  have "has_state LOCKS_STOLEN (set_state LOCKS_STOLEN w)" by simp
  from finished_transactions_inert [OF this, of "WriteCommitted list_db" 5 list_db demo_env] d show ?thesis
    by (intro exI [of _ w]) simp
qed

end
