(* ===== verification/Lock_Batch.thy ===== *)
theory Lock_Batch
  imports Txn_Lifecycle
begin

text \<open>
  Locking a batch: \<open>LockBatch\<close> locks the keys of a batch in one order, the same for every batch, and
  ends. The keys are those of the puts, merges and deletes.
\<close>

section \<open>The collected keys\<close>

definition keys_sorted :: "batch_keys \<Rightarrow> bool" where
  "keys_sorted m \<longleftrightarrow> sorted_wrt (<) (map fst m) \<and> (\<forall>(cf, ks)\<in>set m. sorted_wrt (<) ks)"

definition recorded :: "batch_keys \<Rightarrow> (ColumnFamilyId \<times> string) set" where
  "recorded m = {(cf, k). \<exists>ks. (cf, ks) \<in> set m \<and> k \<in> set ks}"

fun event_key :: "batch_event \<Rightarrow> (ColumnFamilyId \<times> string) option" where
  "event_key (PutCF cf key value) = Some (cf, key)"
| "event_key (MergeCF cf key value) = Some (cf, key)"
| "event_key (DeleteCF cf key) = Some (cf, key)"
| "event_key e = None"

lemma sorted_insort_insert: "sorted_wrt (<) (ks :: string list) \<Longrightarrow> sorted_wrt (<) (insort_insert k ks)"
  by (simp add: strict_sorted_iff sorted_insort_insert distinct_insort_insert)

lemma RecordKey_fst: "fst ` set (RecordKey cf key m) = insert cf (fst ` set m)"
  by (induction cf key m rule: RecordKey.induct) auto

lemma RecordKey_sorted: "keys_sorted m \<Longrightarrow> keys_sorted (RecordKey cf key m)"
proof (induction cf key m rule: RecordKey.induct)
  case (2 cf key c ks m)
  then have m: "keys_sorted m" "\<forall>x\<in>fst ` set m. c < x" "sorted_wrt (<) ks" by (auto simp: keys_sorted_def)
  consider "cf < c" | "cf = c" | "c < cf" by force
  then show ?case
  proof cases
    case 1
    with 2(2) show ?thesis by (fastforce simp: keys_sorted_def)
  next
    case 2
    with m show ?thesis by (auto simp: keys_sorted_def sorted_insort_insert)
  next
    case 3
    with m "2.IH" have r: "keys_sorted (RecordKey cf key m)" by simp
    moreover have "\<forall>x\<in>fst ` set (RecordKey cf key m). c < x" using m(2) 3 unfolding RecordKey_fst by auto
    ultimately show ?thesis using 3 m(3) by (auto simp: keys_sorted_def)
  qed
qed (simp add: keys_sorted_def)

lemma recorded_RecordKey: "recorded (RecordKey cf key m) = insert (cf, key) (recorded m)"
  by (induction cf key m rule: RecordKey.induct) (auto simp: recorded_def set_insort_insert)

lemma Handler_cases:
  "event_key e = Some (cf, key) \<Longrightarrow> LockBatch_Handler e m = Returned (OK, RecordKey cf key m)"
  "event_key e = None \<Longrightarrow> LockBatch_Handler e m = Returned (Handler_default e, m)"
  by (cases e; simp)+

lemma replay_Handler:
  assumes "keys_sorted m" "replay LockBatch_Handler es final m = Returned (s, m')"
  shows "keys_sorted m'" and "ok s \<Longrightarrow> recorded m' = recorded m \<union> {p. \<exists>e\<in>set es. event_key e = Some p}"
proof -
  have "keys_sorted m' \<and> (ok s \<longrightarrow> recorded m' = recorded m \<union> {p. \<exists>e\<in>set es. event_key e = Some p})"
    using assms
  proof (induction es arbitrary: m)
    case (Cons e es)
    show ?case
    proof (cases "event_key e")
      case None
      with Cons show ?thesis by (auto simp: Handler_cases split: if_splits)
    next
      case (Some p)
      obtain cf key where p: "p = (cf, key)" by force
      have "replay LockBatch_Handler es final (RecordKey cf key m) = Returned (s, m')"
        using Cons.prems(2) Some by (simp add: Handler_cases p status_simps)
      from Cons.IH [OF RecordKey_sorted [OF Cons.prems(1)] this] Some p show ?thesis
        by (auto simp: recorded_RecordKey)
    qed
  qed auto
  then show "keys_sorted m'" and "ok s \<Longrightarrow> recorded m' = recorded m \<union> {p. \<exists>e\<in>set es. event_key e = Some p}" by simp_all
qed

lemma replay_Handler_returns: "\<exists>s m'. replay LockBatch_Handler es final m = Returned (s, m')"
proof (induction es arbitrary: m)
  case (Cons e es)
  show ?case
  proof (cases "event_key e")
    case (Some p)
    with Cons show ?thesis by (cases p) (simp add: Handler_cases(1) status_simps)
  qed (use Cons in \<open>simp add: Handler_cases(2)\<close>)
qed simp

section \<open>Locking them\<close>

lemma TryLock_no_wait:
  assumes "plm_ok (pe_hash env) (pw_plm r)" "pw_calls r = c # calls" "lock_timeout (pt_lock t) = 0"
  shows "\<exists>s t' r'. PTxnDB_TryLock env cf key excl (t, r) = Returned (s, t', r') \<and> pt_lock t' = pt_lock t \<and> pw_calls r' = calls"
proof -
  let ?w = "\<lparr>lw_plm = pw_plm r, lw_txn = pt_lock t, lw_db = take_db r\<rparr>"
  obtain m where m: "GetLockMap (pe_thread env) (pw_plm r) cf = (map_of (lock_maps (pw_plm r)) cf, m)"
    "plm_ok (pe_hash env) m" "lock_maps m = lock_maps (pw_plm r)" using GetLockMap_ok [OF assms(1)] by metis
  have "\<exists>s lw. PLM_TryLock (pe_hash env) TryStealingExpiredTransactionLocks (pe_thread env) cf key excl
      (lc_start_time c) (lc_try_lock c) (lc_now c) (lc_wakes c) ?w = Returned (s, lw) \<and> lw_txn lw = pt_lock t"
  proof (cases "map_of (lock_maps (pw_plm r)) cf")
    case None
    with m(1) show ?thesis by (simp add: PLM_TryLock_def)
  next
    case (Some a)
    then have "lm_ok (pe_hash env) (lock_map_heap m ! a)" using m(2,3) unfolding plm_ok_def by auto
    note less = GetStripe_less [OF this, of key]
    obtain s h ids lw where acq: "acquire_at TryStealingExpiredTransactionLocks a (GetStripe (pe_hash env) (lock_map_heap m ! a) key)
        key (lc_now c) (LockInfo_new (txn_id (pt_lock t)) (lt_expiration_time (pt_lock t)) excl) 0 []
        (?w\<lparr>lw_plm := m\<rparr>) = (s, h, ids, lw)" by (metis prod_cases4)
    have "lw_txn lw = pt_lock t" using acq by (auto simp: acquire_at_def split: prod.splits)
    with less acq m(1) Some assms(3) show ?thesis
      by (simp add: PLM_TryLock_def Let_def AcquireWithTimeout_def)
  qed
  then obtain s lw where "PLM_TryLock (pe_hash env) TryStealingExpiredTransactionLocks (pe_thread env) cf key excl
      (lc_start_time c) (lc_try_lock c) (lc_now c) (lc_wakes c) ?w = Returned (s, lw)" "lw_txn lw = pt_lock t" by blast
  then show ?thesis by (simp add: PTxnDB_TryLock_def assms(2))
qed

definition batch_inv :: "(string \<Rightarrow> u64) \<Rightarrow> TrackedKeys \<Rightarrow> ('b, 'c, 'd) pt_world \<Rightarrow> bool" where
  "batch_inv hash T = (\<lambda>(t, r). shape_ok T \<and> lock_timeout (pt_lock t) = 0 \<and> calls_ok hash (txn_id (pt_lock t)) r \<and>
     keeps hash (txn_id (pt_lock t)) (\<lambda>cf k e. tracked_at T cf k \<noteq> None \<and> e) (fst ` set T) (pw_plm r))"

lemma batch_inv_Track:
  assumes "batch_inv hash T (t, r)" "holds (txn_id (pt_lock t)) True (plm_lock hash (pw_plm r) (plr_column_family_id q) (plr_key q))"
  shows "batch_inv hash (Track T q) (t, r)"
proof -
  let ?txn = "txn_id (pt_lock t)" and ?L = "\<lambda>cf k. plm_lock hash (pw_plm r) cf k"
  have inv: "shape_ok T" "plm_ok hash (pw_plm r)" "fst ` set T \<subseteq> dom (map_of (lock_maps (pw_plm r)))"
    "\<forall>cf k. tracked_at T cf k \<noteq> None \<longrightarrow> holds ?txn True (?L cf k)"
    using assms(1) by (simp_all add: batch_inv_def keeps_def) blast+
  have "fst ` set (Track T q) \<subseteq> insert (plr_column_family_id q) (fst ` set T)"
    unfolding Track_eq by (auto simp: dom_update)
  also have "\<dots> \<subseteq> dom (map_of (lock_maps (pw_plm r)))" using holds_plm_cf [OF assms(2)] inv(3) by (simp add: domIff)
  finally have cfs: "fst ` set (Track T q) \<subseteq> dom (map_of (lock_maps (pw_plm r)))" .
  have "holds ?txn e (?L cf k)" if "tracked_at (Track T q) cf k \<noteq> None \<and> e" for cf k e
  proof -
    from that have "cf = plr_column_family_id q \<and> k = plr_key q \<or> tracked_at T cf k \<noteq> None"
      unfolding tracked_Track_iff by simp
    then have "holds ?txn True (?L cf k)" using assms(2) inv(4) by blast
    then show ?thesis using that by simp
  qed
  then have "keeps hash ?txn (\<lambda>cf k e. tracked_at (Track T q) cf k \<noteq> None \<and> e) (fst ` set (Track T q)) (pw_plm r)"
    using cfs inv(2) unfolding keeps_def by simp
  then show ?thesis using assms(1) shape_ok_Track [OF inv(1)] by (simp add: batch_inv_def)
qed

lemma lock_keys_run:
  assumes "batch_inv (pe_hash env) T (t, r)" "length keys \<le> length (pw_calls r)"
  shows "\<exists>s T' t' r'. lock_keys ops env cf keys T (t, r) = Returned (s, T', t', r') \<and> batch_inv (pe_hash env) T' (t', r') \<and>
    pt_lock t' = pt_lock t \<and> length (pw_calls r) \<le> length (pw_calls r') + length keys \<and>
    (\<forall>c k. tracked_at T c k \<noteq> None \<or> ok s \<and> c = cf \<and> k \<in> set keys \<longrightarrow> tracked_at T' c k \<noteq> None)"
  using assms
proof (induction keys arbitrary: T t r)
  case Nil
  then show ?case by simp
next
  case (Cons key keys)
  from Cons.prems(2) obtain c calls where c: "pw_calls r = c # calls" by (cases "pw_calls r") auto
  have inv: "keeps (pe_hash env) (txn_id (pt_lock t)) (\<lambda>cf k e. tracked_at T cf k \<noteq> None \<and> e) (fst ` set T) (pw_plm r)"
    "calls_ok (pe_hash env) (txn_id (pt_lock t)) r" "lock_timeout (pt_lock t) = 0" "shape_ok T"
    using Cons.prems(1) by (simp_all add: batch_inv_def)
  then have "plm_ok (pe_hash env) (pw_plm r)" by (simp add: keeps_def)
  from TryLock_no_wait [OF this c inv(3)] obtain s t1 r1 where
    run: "PTxnDB_TryLock env cf key True (t, r) = Returned (s, t1, r1)" "pt_lock t1 = pt_lock t" "pw_calls r1 = calls" by blast
  note after = PTxnDB_TryLock_keeps [OF run(1) inv(1,2) TrueI]
  then have inv1: "batch_inv (pe_hash env) T (t1, r1)" using inv(3,4) run(2) by (simp add: batch_inv_def)
  show ?case
  proof (cases "ok s")
    case False
    with inv1 run c show ?thesis by simp
  next
    case True
    let ?T = "Track T \<lparr>plr_column_family_id = cf, plr_key = key, plr_seq = db_kMaxSequenceNumber ops, plr_read_only = False,
      plr_exclusive = True\<rparr>"
    have "batch_inv (pe_hash env) ?T (t1, r1)" using after True run(2) by (intro batch_inv_Track [OF inv1]) simp
    moreover have "length keys \<le> length (pw_calls r1)" using Cons.prems(2) c run(3) by simp
    ultimately obtain s' T' t' r' where "lock_keys ops env cf keys ?T (t1, r1) = Returned (s', T', t', r')"
      "batch_inv (pe_hash env) T' (t', r')" "pt_lock t' = pt_lock t1" "length (pw_calls r1) \<le> length (pw_calls r') + length keys"
      "\<forall>c k. tracked_at ?T c k \<noteq> None \<or> ok s' \<and> c = cf \<and> k \<in> set keys \<longrightarrow> tracked_at T' c k \<noteq> None"
      using Cons.IH by meson
    then show ?thesis using run c True tracked_Track_iff [of T] by auto
  qed
qed

definition key_count :: "batch_keys \<Rightarrow> nat" where
  "key_count m = (\<Sum>(cf, ks)\<leftarrow>m. length ks)"

lemma lock_cfs_run:
  assumes "batch_inv (pe_hash env) T (t, r)" "key_count m \<le> length (pw_calls r)"
  shows "\<exists>s T' t' r'. lock_cfs ops env m T (t, r) = Returned (s, T', t', r') \<and> batch_inv (pe_hash env) T' (t', r') \<and>
    pt_lock t' = pt_lock t \<and>
    (\<forall>c k. tracked_at T c k \<noteq> None \<or> ok s \<and> (c, k) \<in> recorded m \<longrightarrow> tracked_at T' c k \<noteq> None)"
  using assms
proof (induction m arbitrary: T t r)
  case Nil
  then show ?case by (simp add: recorded_def)
next
  case (Cons p m)
  obtain cf keys where p: "p = (cf, keys)" by (cases p)
  have "length keys \<le> length (pw_calls r)" using Cons.prems(2) p by (simp add: key_count_def)
  from lock_keys_run [OF Cons.prems(1) this, of ops cf] obtain s T1 t1 r1 where
    run: "lock_keys ops env cf keys T (t, r) = Returned (s, T1, t1, r1)" "batch_inv (pe_hash env) T1 (t1, r1)"
      "pt_lock t1 = pt_lock t" "length (pw_calls r) \<le> length (pw_calls r1) + length keys"
    and T1: "\<forall>c k. tracked_at T c k \<noteq> None \<or> ok s \<and> c = cf \<and> k \<in> set keys \<longrightarrow> tracked_at T1 c k \<noteq> None" by blast
  show ?case
  proof (cases "ok s")
    case False
    with run T1 p show ?thesis by simp
  next
    case True
    have "key_count m \<le> length (pw_calls r1)" using Cons.prems(2) run(4) p by (simp add: key_count_def)
    with run(2) obtain s' T' t' r' where "lock_cfs ops env m T1 (t1, r1) = Returned (s', T', t', r')"
      "batch_inv (pe_hash env) T' (t', r')" "pt_lock t' = pt_lock t1"
      "\<forall>c k. tracked_at T1 c k \<noteq> None \<or> ok s' \<and> (c, k) \<in> recorded m \<longrightarrow> tracked_at T' c k \<noteq> None"
      using Cons.IH by meson
    then show ?thesis using run T1 True p by (auto simp: recorded_def)
  qed
qed

lemma release_exclusive: "holds txn True l \<Longrightarrow> release_opt txn l = None"
  by (auto simp: holds_def release_opt_def release_def)

text \<open>
  C36: the map in which \<open>LockBatch\<close> collects the keys of a batch, a \<open>std::map\<close> of \<open>std::set\<close>s, is
  strictly sorted by column family and, within each, by key, whatever the order of the operations in
  the batch; after an error-free iteration it holds exactly the keys of the puts, merges and deletes,
  each once. All batches thus lock in one order.
\<close>

theorem batch_keys_sorted:
  assumes "replay LockBatch_Handler es final [] = Returned (s, m)"
  shows "sorted_wrt (<) (map fst m) \<and> (\<forall>(cf, ks)\<in>set m. sorted_wrt (<) ks) \<and>
    (ok s \<longrightarrow> {(cf, k). \<exists>ks. (cf, ks) \<in> set m \<and> k \<in> set ks} = {p. \<exists>e\<in>set es. event_key e = Some p})"
proof -
  have "keys_sorted []" by (simp add: keys_sorted_def)
  from replay_Handler [OF this assms] show ?thesis by (simp add: keys_sorted_def recorded_def)
qed

theorem batch_keys_sorted_witness:
  "{(cf, k). \<exists>ks. (cf, ks) \<in> set [(0, [''a'', ''b'']), (3, [''a''])] \<and> k \<in> set ks} =
   {p. \<exists>e\<in>set [PutCF 3 ''a'' ''1'', PutCF 0 ''b'' ''2'', DeleteCF 0 ''a'', MergeCF 0 ''b'' ''3'']. event_key e = Some p}"
proof -
  have "replay LockBatch_Handler [PutCF 3 ''a'' ''1'', PutCF 0 ''b'' ''2'', DeleteCF 0 ''a'', MergeCF 0 ''b'' ''3''] OK [] =
    Returned (OK, [(0, [''a'', ''b'']), (3, [''a''])])" by code_simp
  moreover have "ok OK" by (simp add: status_simps)
  ultimately show ?thesis using batch_keys_sorted by blast
qed


abbreviation demo_impatient where
  "demo_impatient \<equiv> PTxn_new list_db demo_env 1 WriteOptions_new (TransactionOptions_new\<lparr>to_lock_timeout := 0\<rparr>) 77 demo_pworld"


end
