(* ===== verification/Txn_DB.thy ===== *)
theory Txn_DB
  imports Lock_Batch
begin

text \<open>
  The transaction database itself (\<^verbatim>\<open>utilities/transactions/pessimistic_transaction_db.{h,cc}\<close>) with the
  write-committed policy: opening and recovery, column families, and the writes outside transactions,
  which run in a transaction of their own.

  The database below is again a parameter: \<open>cf_ops\<close> holds its operations on column families and its
  recovered transactions. Of the options only the fields that the code reads or sets are in the records.
  A new transaction object gets its address as an argument.
\<close>

section \<open>Options and the database below\<close>

record ColumnFamilyOptions =
  co_comparator_name :: string
  co_timestamp_size :: nat
  co_compression :: nat
  co_max_write_buffer_size_to_maintain :: int
  co_max_write_buffer_number_to_maintain :: int
  co_disable_auto_compactions :: bool

record ColumnFamilyDescriptor =
  cd_name :: string
  cd_options :: ColumnFamilyOptions

record DBOptions =
  do_create_if_missing :: bool
  do_create_missing_column_families :: bool
  do_unordered_write :: bool
  do_two_write_queues :: bool
  do_allow_2pc :: bool

record 'c recovered_txn =
  rt_name :: string
  rt_seq :: SequenceNumber
  rt_log_number :: u64
  rt_batch :: 'c

record ('c, 'd) cf_ops =
  cf_Open :: "DBOptions \<Rightarrow> string \<Rightarrow> ColumnFamilyDescriptor list \<Rightarrow> bool \<Rightarrow> bool \<Rightarrow> Status \<times> ColumnFamilyHandle list \<times> 'd"
  cf_GetDescriptor :: "ColumnFamilyHandle \<Rightarrow> Status \<times> ColumnFamilyDescriptor"
  cf_EnableAutoCompaction :: "ColumnFamilyHandle list \<Rightarrow> 'd \<Rightarrow> Status \<times> 'd"
  cf_recovered_transactions :: "'d \<Rightarrow> 'c recovered_txn list"
  cf_DeleteAllRecoveredTransactions :: "'d \<Rightarrow> 'd"
  cf_CreateColumnFamily :: "ColumnFamilyOptions \<Rightarrow> string \<Rightarrow> 'd \<Rightarrow> Status \<times> ColumnFamilyHandle option \<times> 'd"
  cf_CreateColumnFamilies :: "ColumnFamilyDescriptor list \<Rightarrow> 'd \<Rightarrow> Status \<times> ColumnFamilyHandle list \<times> 'd"
  cf_CreateColumnFamilies_named ::
    "ColumnFamilyOptions \<Rightarrow> string list \<Rightarrow> 'd \<Rightarrow> Status \<times> ColumnFamilyHandle list \<times> 'd"
  cf_DropColumnFamily :: "ColumnFamilyHandle \<Rightarrow> 'd \<Rightarrow> Status \<times> 'd"
  cf_DropColumnFamilies :: "ColumnFamilyHandle list \<Rightarrow> 'd \<Rightarrow> Status \<times> 'd"
  cf_Write :: "WriteOptions \<Rightarrow> 'c option \<Rightarrow> 'd \<Rightarrow> Status \<times> 'd"

section \<open>Column families\<close>

definition VerifyCFOptions :: "TransactionDBOptions \<Rightarrow> ColumnFamilyOptions \<Rightarrow> Status" where
  "VerifyCFOptions txn_db_options cf_options =
     (let ts_sz = co_timestamp_size cf_options
      in if ts_sz = 0 then OK
         else if ts_sz \<noteq> 8
         then InvalidArgument_msg
                (''Timestamp of transaction must have 8 bytes. CF comparator '' @ co_comparator_name cf_options @
                 '' timestamp size is '' @ decimal ts_sz @ '' bytes'') ''''
         else if dbo_write_policy txn_db_options \<noteq> WRITE_COMMITTED
         then NotSupported_msg ''Only WriteCommittedTxn supports timestamp'' ''''
         else OK)"

definition PTxnDB_AddColumnFamily :: "ColumnFamilyHandle \<Rightarrow> 'd pworld \<Rightarrow> 'd pworld" where
  "PTxnDB_AddColumnFamily handle r = r\<lparr>pw_plm := AddColumnFamily (pw_plm r) (cfh_id handle)\<rparr>"

definition PTxnDB_CreateColumnFamily ::
  "('c, 'd) cf_ops \<Rightarrow> plm_env \<Rightarrow> ColumnFamilyOptions \<Rightarrow> string \<Rightarrow> 'd pworld \<Rightarrow>
   Status \<times> ColumnFamilyHandle option \<times> 'd pworld" where
  "PTxnDB_CreateColumnFamily cfs env options name r =
     (let s = VerifyCFOptions (pe_options env) options
      in if \<not> ok s then (s, None, r)
         else case cf_CreateColumnFamily cfs options name (w_db r) of
           (s, handle, d) \<Rightarrow>
             (s, handle,
              case handle of
                Some h \<Rightarrow> if ok s then PTxnDB_AddColumnFamily h (r\<lparr>w_db := d\<rparr>) else r\<lparr>w_db := d\<rparr>
              | None \<Rightarrow> r\<lparr>w_db := d\<rparr>))"

definition add_created ::
  "Status \<times> ColumnFamilyHandle list \<times> 'd \<Rightarrow> 'd pworld \<Rightarrow> Status \<times> ColumnFamilyHandle list \<times> 'd pworld" where
  "add_created = (\<lambda>(s, handles, d) r.
     (s, handles, if ok s then fold PTxnDB_AddColumnFamily handles (r\<lparr>w_db := d\<rparr>) else r\<lparr>w_db := d\<rparr>))"

definition PTxnDB_CreateColumnFamilies_named ::
  "('c, 'd) cf_ops \<Rightarrow> plm_env \<Rightarrow> ColumnFamilyOptions \<Rightarrow> string list \<Rightarrow> 'd pworld \<Rightarrow>
   Status \<times> ColumnFamilyHandle list \<times> 'd pworld" where
  "PTxnDB_CreateColumnFamilies_named cfs env options names r =
     (let s = VerifyCFOptions (pe_options env) options
      in if \<not> ok s then (s, [], r) else add_created (cf_CreateColumnFamilies_named cfs options names (w_db r)) r)"

fun verify_all :: "TransactionDBOptions \<Rightarrow> ColumnFamilyOptions list \<Rightarrow> Status" where
  "verify_all opts [] = OK"
| "verify_all opts (o1 # os) = (let s = VerifyCFOptions opts o1 in if \<not> ok s then s else verify_all opts os)"

definition PTxnDB_CreateColumnFamilies ::
  "('c, 'd) cf_ops \<Rightarrow> plm_env \<Rightarrow> ColumnFamilyDescriptor list \<Rightarrow> 'd pworld \<Rightarrow>
   Status \<times> ColumnFamilyHandle list \<times> 'd pworld" where
  "PTxnDB_CreateColumnFamilies cfs env column_families r =
     (let s = verify_all (pe_options env) (map cd_options column_families)
      in if \<not> ok s then (s, [], r) else add_created (cf_CreateColumnFamilies cfs column_families (w_db r)) r)"

definition PTxnDB_DropColumnFamily ::
  "('c, 'd) cf_ops \<Rightarrow> ColumnFamilyHandle \<Rightarrow> 'd pworld \<Rightarrow> Status \<times> 'd pworld" where
  "PTxnDB_DropColumnFamily cfs h r =
     (case cf_DropColumnFamily cfs h (w_db r) of
        (s, d) \<Rightarrow>
          (s, if ok s then r\<lparr>w_db := d, pw_plm := RemoveColumnFamily (pw_plm r) (cfh_id h)\<rparr> else r\<lparr>w_db := d\<rparr>))"

definition PTxnDB_DropColumnFamilies ::
  "('c, 'd) cf_ops \<Rightarrow> ColumnFamilyHandle list \<Rightarrow> 'd pworld \<Rightarrow> Status \<times> 'd pworld" where
  "PTxnDB_DropColumnFamilies cfs hs r =
     (case cf_DropColumnFamilies cfs hs (w_db r) of
        (s, d) \<Rightarrow>
          (s, if ok s
              then r\<lparr>w_db := d, pw_plm := fold (\<lambda>h m. RemoveColumnFamily m (cfh_id h)) hs (pw_plm r)\<rparr>
              else r\<lparr>w_db := d\<rparr>))"

section \<open>Beginning transactions\<close>

definition BeginTransaction ::
  "('b, 'c, 'd) db_ops \<Rightarrow> plm_env \<Rightarrow> u64 \<Rightarrow> WriteOptions \<Rightarrow> TransactionOptions \<Rightarrow> nat \<Rightarrow> ('b, 'c) PTxn option \<Rightarrow>
   'd pworld \<Rightarrow> ('b, 'c, 'd) pt_world outcome" where
  "BeginTransaction ops env now wo txn_options self old_txn r =
     (case old_txn of
        Some t \<Rightarrow> PTxn_Reinitialize ops env now wo txn_options (t, r)
      | None \<Rightarrow> Returned (PTxn_new ops env now wo txn_options self r))"

definition BeginInternalTransaction ::
  "('b, 'c, 'd) db_ops \<Rightarrow> plm_env \<Rightarrow> u64 \<Rightarrow> WriteOptions \<Rightarrow> nat \<Rightarrow> 'd pworld \<Rightarrow> ('b, 'c, 'd) pt_world outcome" where
  "BeginInternalTransaction ops env now wo self r =
     bind_outcome (BeginTransaction ops env now wo TransactionOptions_new self None r) (\<lambda>(t, r).
       Returned (t\<lparr>pt_lock := SetLockTimeout (pt_lock t) (dbo_default_lock_timeout (pe_options env))\<rparr>, r))"

definition DisableIndexing :: "('b, 'c, 'd) pt_world \<Rightarrow> ('b, 'c, 'd) pt_world" where
  "DisableIndexing = (\<lambda>(t, r). (t\<lparr>indexing_enabled := False\<rparr>, r))"

definition GetAllPreparedTransactions :: "('d, 'm) txn_db_scheme \<Rightarrow> nat list" where
  "GetAllPreparedTransactions r = filter (\<lambda>a. txn_states r a = Some PREPARED) (map snd (transactions r))"

section \<open>Writes outside transactions\<close>

definition FailIfBatchHasTs :: "('b, 'c, 'd) db_ops \<Rightarrow> 'c option \<Rightarrow> Status" where
  "FailIfBatchHasTs ops batch =
     (case batch of
        Some c \<Rightarrow>
          if wb_HasKeyWithTimestamp ops c
          then NotSupported_msg ''Writes with timestamp must go through transaction API instead of TransactionDB.'' ''''
          else OK
      | None \<Rightarrow> OK)"

definition FailIfCfEnablesTs :: "('b, 'c, 'd) db_ops \<Rightarrow> ColumnFamilyHandle option \<Rightarrow> Status" where
  "FailIfCfEnablesTs ops cf =
     (if cfh_timestamp_size (case cf of Some h \<Rightarrow> h | None \<Rightarrow> db_DefaultColumnFamily ops) > 0
      then NotSupported_msg
             ''Write operation with user timestamp must go through the transaction API instead of TransactionDB.'' ''''
      else OK)"

text \<open>
  What the four write operations have in common: a transaction without index around one untracked write,
  committed if the write succeeds and destroyed in any case. The two times are those of its creation and
  of its commit.
\<close>

definition internal_write ::
  "('b, 'c, 'd) db_ops \<Rightarrow> plm_env \<Rightarrow> u64 \<times> u64 \<Rightarrow> WriteOptions \<Rightarrow> nat \<Rightarrow> ColumnFamilyHandle option \<Rightarrow>
   (('b, 'c, 'd) pt_world \<Rightarrow> (Status \<times> ('b, 'c, 'd) pt_world) outcome) \<Rightarrow> 'd pworld \<Rightarrow> (Status \<times> 'd pworld) outcome" where
  "internal_write ops env = (\<lambda>(t0, t1) wo self cf write r.
     let s = FailIfCfEnablesTs ops cf
     in if \<not> ok s then Returned (s, r)
        else bind_outcome (BeginInternalTransaction ops env t0 wo self r) (\<lambda>w.
          bind_outcome (write (DisableIndexing w)) (\<lambda>(s, w).
          bind_outcome (if ok s then PTxn_Commit ops env (WriteCommitted ops) t1 w else Returned (s, w)) (\<lambda>(s, w).
          bind_outcome (PTxn_destroy env w) (\<lambda>r. Returned (s, r))))))"

definition PTxnDB_Put where
  "PTxnDB_Put ops env clock wo self cf key value =
     internal_write ops env clock wo self cf (WCTxn_PutUntracked ops env cf (Slice key) (Slice value))"

definition PTxnDB_Delete where
  "PTxnDB_Delete ops env clock wo self cf key =
     internal_write ops env clock wo self cf (WCTxn_DeleteUntracked ops env cf (Slice key))"

definition PTxnDB_SingleDelete where
  "PTxnDB_SingleDelete ops env clock wo self cf key =
     internal_write ops env clock wo self cf (WCTxn_SingleDeleteUntracked ops env cf (Slice key))"

text \<open>\<^verbatim>\<open>WriteCommittedTxn\<close> does not override \<^verbatim>\<open>MergeUntracked\<close>.\<close>

definition PTxnDB_Merge where
  "PTxnDB_Merge ops env clock wo self cf key value =
     internal_write ops env clock wo self cf
       (TxnBase_MergeUntracked ops (PTxn_TryLock ops env) cf (Slice key) (Slice value))"

text \<open>A null batch has no protection information to update; reading it is undefined.\<close>

definition WriteWithConcurrencyControl ::
  "('b, 'c, 'd) db_ops \<Rightarrow> plm_env \<Rightarrow> u64 \<times> u64 \<Rightarrow> WriteOptions \<Rightarrow> nat \<Rightarrow> 'c option \<Rightarrow> 'd pworld \<Rightarrow>
   (Status \<times> 'd pworld) outcome" where
  "WriteWithConcurrencyControl ops env = (\<lambda>(t0, t1) wo self updates r.
     bind_outcome
       (if protection_bytes_per_key wo > 0
        then case updates of
               None \<Rightarrow> Undefined
             | Some c \<Rightarrow> (case wb_UpdateProtectionInfo ops (protection_bytes_per_key wo) c of (s, c) \<Rightarrow> Returned (s, Some c))
        else Returned (OK, updates))
       (\<lambda>(s, updates).
     if \<not> ok s then Returned (s, r)
     else bind_outcome (BeginInternalTransaction ops env t0 wo self r) (\<lambda>w.
       bind_outcome (PTxn_CommitBatch ops env (WriteCommitted ops) t1 updates (DisableIndexing w)) (\<lambda>(s, w).
       bind_outcome (PTxn_destroy env w) (\<lambda>r. Returned (s, r))))))"

definition PTxnDB_Write where
  "PTxnDB_Write = WriteWithConcurrencyControl"

definition unguarded_or_locked where
  "unguarded_or_locked cfs ops env clock skip wo self updates r =
     (let s = FailIfBatchHasTs ops updates
      in if \<not> ok s then Returned (s, r)
         else if skip then case cf_Write cfs wo updates (w_db r) of (s, d) \<Rightarrow> Returned (s, r\<lparr>w_db := d\<rparr>)
         else WriteWithConcurrencyControl ops env clock wo self updates r)"

definition WCTxnDB_Write ::
  "('c, 'd) cf_ops \<Rightarrow> ('b, 'c, 'd) db_ops \<Rightarrow> plm_env \<Rightarrow> u64 \<times> u64 \<Rightarrow> WriteOptions \<Rightarrow> nat \<Rightarrow> 'c option \<Rightarrow> 'd pworld \<Rightarrow>
   (Status \<times> 'd pworld) outcome" where
  "WCTxnDB_Write cfs ops env clock =
     unguarded_or_locked cfs ops env clock (dbo_skip_concurrency_control (pe_options env))"

definition WCTxnDB_Write_optimized ::
  "('c, 'd) cf_ops \<Rightarrow> ('b, 'c, 'd) db_ops \<Rightarrow> plm_env \<Rightarrow> u64 \<times> u64 \<Rightarrow> TransactionDBWriteOptimizations \<Rightarrow>
   WriteOptions \<Rightarrow> nat \<Rightarrow> 'c option \<Rightarrow> 'd pworld \<Rightarrow> (Status \<times> 'd pworld) outcome" where
  "WCTxnDB_Write_optimized cfs ops env clock optimizations =
     unguarded_or_locked cfs ops env clock (opt_skip_concurrency_control optimizations)"

section \<open>Opening\<close>

definition ValidateTxnDBOptions :: "TransactionDBOptions \<Rightarrow> TransactionDBOptions" where
  "ValidateTxnDBOptions opts = (if dbo_num_stripes opts = 0 then opts\<lparr>dbo_num_stripes := 1\<rparr> else opts)"

definition prepare_cf :: "ColumnFamilyOptions \<Rightarrow> ColumnFamilyOptions" where
  "prepare_cf cf_options =
     (if co_max_write_buffer_size_to_maintain cf_options = 0 \<and> co_max_write_buffer_number_to_maintain cf_options = 0
      then cf_options\<lparr>co_max_write_buffer_size_to_maintain := - 1\<rparr> else cf_options)
     \<lparr>co_disable_auto_compactions := True\<rparr>"

definition PrepareWrap ::
  "DBOptions \<Rightarrow> ColumnFamilyDescriptor list \<Rightarrow> DBOptions \<times> ColumnFamilyDescriptor list \<times> nat list" where
  "PrepareWrap db_options column_families =
     (db_options\<lparr>do_allow_2pc := True\<rparr>,
      map (\<lambda>d. d\<lparr>cd_options := prepare_cf (cd_options d)\<rparr>) column_families,
      filter (\<lambda>i. \<not> co_disable_auto_compactions (cd_options (column_families ! i))) [0..<length column_families])"

text \<open>
  Recovery: one transaction for each prepared one the database found in its logs. The keys are not
  locked; the object for a name is created at the address \<open>new_obj\<close> of that name.
\<close>

definition WriteCommitted_writes ::
  "('b, 'c, 'd) db_ops \<Rightarrow> plm_env \<Rightarrow> ('b, 'c, 'd) pt_world txn_writes" where
  "WriteCommitted_writes ops env = \<lparr>
     tw_Put = \<lambda>cf key value. WCTxn_Put ops env cf (Slice key) (Slice value) False,
     tw_Delete = \<lambda>cf key. WCTxn_Delete ops env cf (Slice key) False,
     tw_SingleDelete = \<lambda>cf key. WCTxn_SingleDelete ops env cf (Slice key) False,
     tw_Merge = \<lambda>cf key value. WCTxn_Merge ops env cf (Slice key) (Slice value) False\<rparr>"

definition recover_txn ::
  "('b, 'c, 'd) db_ops \<Rightarrow> plm_env \<Rightarrow> u64 \<Rightarrow> nat \<Rightarrow> 'c recovered_txn \<Rightarrow> 'd pworld \<Rightarrow>
   (Status \<times> ('b, 'c, 'd) pt_world) outcome" where
  "recover_txn ops env now self rt r =
     bind_outcome
       (BeginTransaction ops env now (WriteOptions_new\<lparr>sync := True\<rparr>)
          (TransactionOptions_new\<lparr>to_skip_concurrency_control := True\<rparr>) self None r) (\<lambda>(t, r).
     let t = t\<lparr>log_number := rt_log_number rt\<rparr>;
         t = (if dbo_write_policy (pe_options env) \<noteq> WRITE_COMMITTED then t\<lparr>seq_id := rt_seq rt\<rparr> else t);
         (s, w) = PTxn_SetName (rt_name rt) (t, r)
     in if \<not> ok s then Returned (s, w)
        else bind_outcome (RebuildFromWriteBatch ops (WriteCommitted_writes ops env) (rt_batch rt) w) (\<lambda>(s, w).
          Returned (s, set_state PREPARED w)))"

fun recover_all ::
  "('b, 'c, 'd) db_ops \<Rightarrow> plm_env \<Rightarrow> u64 \<Rightarrow> (string \<Rightarrow> nat) \<Rightarrow> 'c recovered_txn list \<Rightarrow> Status \<Rightarrow> 'd pworld \<Rightarrow>
   (Status \<times> ('b, 'c) PTxn list \<times> 'd pworld) outcome" where
  "recover_all ops env now new_obj [] s r = Returned (s, [], r)"
| "recover_all ops env now new_obj (rt # rts) s r =
     bind_outcome (recover_txn ops env now (new_obj (rt_name rt)) rt r) (\<lambda>(s, t, r).
       if \<not> ok s then Returned (s, [t], r)
       else bind_outcome (recover_all ops env now new_obj rts s r) (\<lambda>(s, ts, r). Returned (s, t # ts, r)))"

text \<open>
  A handle whose descriptor cannot be read, or is refused, ends the verification. The indices were
  computed from the descriptors the handles were opened with.
\<close>

fun verify_handles :: "('c, 'd) cf_ops \<Rightarrow> TransactionDBOptions \<Rightarrow> ColumnFamilyHandle list \<Rightarrow> Status" where
  "verify_handles cfs opts [] = OK"
| "verify_handles cfs opts (h # hs) =
     (case cf_GetDescriptor cfs h of
        (s, cfd) \<Rightarrow>
          if \<not> ok s then s
          else let s = VerifyCFOptions opts (cd_options cfd) in if \<not> ok s then s else verify_handles cfs opts hs)"

definition PTxnDB_Initialize ::
  "('c, 'd) cf_ops \<Rightarrow> ('b, 'c, 'd) db_ops \<Rightarrow> plm_env \<Rightarrow> u64 \<Rightarrow> (string \<Rightarrow> nat) \<Rightarrow> nat list \<Rightarrow> ColumnFamilyHandle list \<Rightarrow>
   'd pworld \<Rightarrow> (Status \<times> ('b, 'c) PTxn list \<times> 'd pworld) outcome" where
  "PTxnDB_Initialize cfs ops env now new_obj compaction_enabled_cf_indices handles r =
     (let r = fold PTxnDB_AddColumnFamily handles r;
          s = verify_handles cfs (pe_options env) handles
      in if \<not> ok s then Returned (s, [], r)
         else
           let (s, d) = cf_EnableAutoCompaction cfs (map ((!) handles) compaction_enabled_cf_indices) (w_db r)
           in bind_outcome
                (recover_all ops env now new_obj (cf_recovered_transactions cfs d) s (r\<lparr>w_db := d\<rparr>)) (\<lambda>(s, ts, r).
                  Returned (s, ts, if ok s then r\<lparr>w_db := cf_DeleteAllRecoveredTransactions cfs (w_db r)\<rparr> else r)))"

text \<open>
  \<^verbatim>\<open>WrapDB\<close> for the write-committed policy: a new transaction database around \<open>d\<close>; \<open>r\<close> supplies what
  belongs to the process, the transaction objects and the id counter.
\<close>

definition PTxnDB_new :: "TransactionDBOptions \<Rightarrow> 'd \<Rightarrow> 'd pworld \<Rightarrow> 'd pworld" where
  "PTxnDB_new opts d r = r\<lparr>w_db := d, expirable_transactions := [], transactions := [],
     pw_plm := PointLockManager_new (dbo_num_stripes opts) (dbo_max_num_locks opts) (dbo_max_num_deadlocks opts)\<rparr>"

definition WrapDB ::
  "('c, 'd) cf_ops \<Rightarrow> ('b, 'c, 'd) db_ops \<Rightarrow> plm_env \<Rightarrow> u64 \<Rightarrow> (string \<Rightarrow> nat) \<Rightarrow> nat list \<Rightarrow> ColumnFamilyHandle list \<Rightarrow>
   'd \<Rightarrow> 'd pworld \<Rightarrow> (Status \<times> (('b, 'c) PTxn list \<times> 'd pworld) option) outcome" where
  "WrapDB cfs ops env now new_obj indices handles d r =
     (let opts = ValidateTxnDBOptions (pe_options env)
      in bind_outcome (PTxnDB_Initialize cfs ops (env\<lparr>pe_options := opts\<rparr>) now new_obj indices handles (PTxnDB_new opts d r))
           (\<lambda>(s, ts, r). Returned (s, if ok s then Some (ts, r) else None)))"

definition TransactionDB_Open ::
  "('c, 'd) cf_ops \<Rightarrow> ('b, 'c, 'd) db_ops \<Rightarrow> plm_env \<Rightarrow> u64 \<Rightarrow> (string \<Rightarrow> nat) \<Rightarrow> DBOptions \<Rightarrow> string \<Rightarrow>
   ColumnFamilyDescriptor list \<Rightarrow> 'd pworld \<Rightarrow>
   (Status \<times> ColumnFamilyHandle list \<times> (('b, 'c) PTxn list \<times> 'd pworld) option) outcome" where
  "TransactionDB_Open cfs ops env now new_obj db_options dbname column_families r =
     (let policy = dbo_write_policy (pe_options env); refuse = (\<lambda>m. Returned (NotSupported_msg m '''', [], None))
      in if policy = WRITE_COMMITTED \<and> do_unordered_write db_options
         then refuse ''WRITE_COMMITTED is incompatible with unordered_writes''
         else if policy = WRITE_UNPREPARED \<and> do_unordered_write db_options
         then refuse ''WRITE_UNPREPARED is currently incompatible with unordered_writes''
         else if policy = WRITE_PREPARED \<and> do_unordered_write db_options \<and> \<not> do_two_write_queues db_options
         then refuse ''WRITE_PREPARED is incompatible with unordered_writes if two_write_queues is not enabled.''
         else
           let (db_options_2pc, column_families_copy, indices) = PrepareWrap db_options column_families;
               use_seq_per_batch = (policy = WRITE_PREPARED \<or> policy = WRITE_UNPREPARED);
               use_batch_per_txn = (policy = WRITE_COMMITTED \<or> policy = WRITE_PREPARED);
               (s, handles, d) = cf_Open cfs db_options_2pc dbname column_families_copy use_seq_per_batch use_batch_per_txn
           in if \<not> ok s then Returned (s, handles, None)
              else bind_outcome (WrapDB cfs ops env now new_obj indices handles d r) (\<lambda>(s, db). Returned (s, handles, db)))"

section \<open>An uncontended write\<close>

lemma TryLock_free:
  assumes plm: "plm_ok (pe_hash env) (pw_plm r)" and c: "pw_calls r = c # calls" "lc_try_lock c"
    and a: "map_of (lock_maps (pw_plm r)) cf = Some a" and free: "plm_lock (pe_hash env) (pw_plm r) cf key = None"
    and limit: "max_num_locks (pw_plm r) \<le> 0"
  shows "\<exists>m. PTxnDB_TryLock env cf key True (t, r) = Returned (OK, t, r\<lparr>pw_plm := m, pw_calls := calls\<rparr>) \<and>
    (\<forall>cf' k. plm_lock (pe_hash env) m cf' k =
       (if cf' = cf \<and> k = key then Some (LockInfo_new (txn_id (pt_lock t)) (lt_expiration_time (pt_lock t)) True)
        else plm_lock (pe_hash env) (pw_plm r) cf' k))"
proof -
  let ?h = "pe_hash env" and ?info = "LockInfo_new (txn_id (pt_lock t)) (lt_expiration_time (pt_lock t)) True"
  let ?steal = "TryStealingExpiredTransactionLocks"
  obtain m where m: "GetLockMap (pe_thread env) (pw_plm r) cf = (Some a, m)" "plm_ok ?h m"
    "lock_maps m = lock_maps (pw_plm r)" "lock_map_heap m = lock_map_heap (pw_plm r)" "max_num_locks m = max_num_locks (pw_plm r)"
    using GetLockMap_ok [OF plm, of "pe_thread env" cf] a by auto
  let ?lm = "lock_map_heap m ! a"
  have ok: "lm_ok ?h ?lm" using m(2,3) a unfolding plm_ok_def by simp
  have same: "plm_lock ?h m = plm_lock ?h (pw_plm r)" using m(3,4) by (simp add: plm_lock_def fun_eq_iff)
  have single: "single ?info" by (simp add: single_def LockInfo_new_def)
  obtain s lm e ids x where al: "AcquireLocked ?steal (max_num_locks m) ?lm (GetStripe ?h ?lm key) key (lc_now c) ?info 0 [] (take_db r) =
      (s, lm, e, ids, x)" by (metis prod_cases5)
  note t = AcquireLocked_table [OF ok single al]
  have free': "lock_at ?h ?lm key = None" using free a by (simp add: plm_lock_def m(4))
  then have res: "s = OK" "lock_at ?h lm = (lock_at ?h ?lm)(key \<mapsto> ?info)" "x = take_db r"
    using t(1) limit m(5) by (auto simp: table_of_def table_acquire_def Let_def split: if_splits)
  define m' where "m' = m\<lparr>lock_map_heap := (lock_map_heap m)[a := lm]\<rparr>"
  have "map_of (lock_maps m) cf = Some a" using a m(3) by simp
  from plm_put_lock_map(2) [OF m(2) this t(2)]
  have lk: "plm_lock ?h m' cf' k = (if cf' = cf \<and> k = key then Some ?info else plm_lock ?h (pw_plm r) cf' k)" for cf' k
    using a same res(2) unfolding m'_def by (auto simp: plm_lock_def m(4))
  have "acquire_at ?steal a (GetStripe ?h ?lm key) key (lc_now c) ?info 0 [] \<lparr>lw_plm = m, lw_txn = pt_lock t, lw_db = take_db r\<rparr> =
      (OK, e, ids, \<lparr>lw_plm = m', lw_txn = pt_lock t, lw_db = take_db r\<rparr>)"
    using al res by (simp add: acquire_at_def m'_def)
  then have "PTxnDB_TryLock env cf key True (t, r) = Returned (OK, t, r\<lparr>pw_plm := m', pw_calls := calls\<rparr>)"
    using c m(1) GetStripe_less [OF ok, of key]
    by (simp add: PTxnDB_TryLock_def PLM_TryLock_def AcquireWithTimeout_def Let_def Mutex_TryLockFor_def Mutex_Lock_def
        status_simps put_db_def take_db_def)
  with lk show ?thesis by blast
qed

text \<open>The batch an internal transaction starts with.\<close>

definition internal_batch :: "('b, 'c, 'd) db_ops \<Rightarrow> WriteOptions \<Rightarrow> 'b" where
  "internal_batch ops wo =
     (let b = wbwi_new ops (protection_bytes_per_key wo)
      in wbwi_SetMaxBytes ops 0 (if db_allow_2pc ops then wbwi_InsertNoop ops b else b))"

lemma internal_new:
  assumes "dbo_lock_mgr_handle (pe_options env) \<noteq> Some True"
  obtains t where "BeginInternalTransaction ops env t0 wo self r =
      Returned (t, r\<lparr>txn_id_counter := txn_id_counter r + 1, txn_states := (txn_states r)(self := Some STARTED)\<rparr>)"
    and "tracked_locks t = PointLockTracker_new" "save_points t = []" "txn_name t = ''''" "log_number t = 0"
      "snapshot t = None" "\<not> snapshot_needed t" "skip_prepare t" "\<not> skip_concurrency_control t" "write_options t = wo"
      "commit_time_batch t = wb_new ops (protection_bytes_per_key wo)" "write_batch t = internal_batch ops wo"
      "pt_self t = self" "txn_id (pt_lock t) = txn_id_counter r" "lt_expiration_time (pt_lock t) = 0"
  using assms
  by (simp add: BeginInternalTransaction_def BeginTransaction_def PTxn_new_def PTxn_Initialize_def TransactionBase_new_def
      InitWriteBatch_def GenTxnID_def set_state_def TransactionOptions_new_def SetLockTimeout_def internal_batch_def
      TransactionBase.defs PTxn.defs LockTxn_new_def Let_def)

lemma fresh_inv:
  assumes "plm_ok hash (pw_plm r)" "calls_ok hash (txn_id (pt_lock t)) r"
    and "tracked_locks t = PointLockTracker_new" "save_points t = []"
  shows "pt_inv hash strict (t, r)"
proof -
  have "trk_inv PointLockTracker_new" by (rule lt.compact_inv) simp
  then show ?thesis
    using assms by (simp add: pt_inv_def tb_inv_def keeps_def held_def tracked_at_def PointLockTracker_new_def)
qed

text \<open>Locking and writing a key that is free, in a transaction that has not locked anything.\<close>

lemma Operate_free:
  assumes plm: "plm_ok (pe_hash env) (pw_plm r)" "calls_ok (pe_hash env) (txn_id (pt_lock t)) r"
    and c: "pw_calls r = c # calls" "lc_try_lock c"
    and cf: "map_of (lock_maps (pw_plm r)) (db_GetColumnFamilyID ops cf) = Some a" "ok (FailIfCfEnablesTs ops cf)"
    and free: "plm_lock (pe_hash env) (pw_plm r) (db_GetColumnFamilyID ops cf) key = None" "max_num_locks (pw_plm r) \<le> 0"
    and t: "tracked_locks t = PointLockTracker_new" "save_points t = []" "\<not> snapshot_needed t" "\<not> skip_concurrency_control t"
      "\<not> indexing_enabled t"
    and b: "wbwi_write ops without_index op (write_batch t) = (s, b)" "ok s"
  shows "\<exists>T m. Operate ops env cf (Slice key) False False (batch_op ops op counter) (t, r) =
      Returned (s, bump counter (t\<lparr>tracked_locks := T, write_batch := b\<rparr>), r\<lparr>pw_plm := m, pw_calls := calls\<rparr>) \<and>
    pt_inv (pe_hash env) True (bump counter (t\<lparr>tracked_locks := T, write_batch := b\<rparr>), r\<lparr>pw_plm := m, pw_calls := calls\<rparr>) \<and>
    (\<forall>cf' k. (tracked_at T cf' k \<noteq> None \<longleftrightarrow> cf' = db_GetColumnFamilyID ops cf \<and> k = key) \<and>
       plm_lock (pe_hash env) m cf' k =
         (if cf' = db_GetColumnFamilyID ops cf \<and> k = key
          then Some (LockInfo_new (txn_id (pt_lock t)) (lt_expiration_time (pt_lock t)) True)
          else plm_lock (pe_hash env) (pw_plm r) cf' k))"
proof -
  let ?cf = "db_GetColumnFamilyID ops cf"
  obtain m where m: "PTxnDB_TryLock env ?cf key True (t, r) = Returned (OK, t, r\<lparr>pw_plm := m, pw_calls := calls\<rparr>)"
    and lk: "\<forall>cf' k. plm_lock (pe_hash env) m cf' k =
       (if cf' = ?cf \<and> k = key then Some (LockInfo_new (txn_id (pt_lock t)) (lt_expiration_time (pt_lock t)) True)
        else plm_lock (pe_hash env) (pw_plm r) cf' k)"
    using TryLock_free [OF plm(1) c cf(1) free, of t] by blast
  define q where "q = \<lparr>plr_column_family_id = ?cf, plr_key = key, plr_seq = db_GetLatestSequenceNumber ops (w_db r),
    plr_read_only = False, plr_exclusive = True\<rparr>"
  define T where "T = Track PointLockTracker_new q"
  have lock: "PTxn_TryLock ops env cf key False True False False (t, r) =
      Returned (OK, t\<lparr>tracked_locks := T\<rparr>, r\<lparr>pw_plm := m, pw_calls := calls\<rparr>)"
    using m t by (simp add: PTxn_TryLock_def Tracker_GetPointLockStatus_def PointLockTracker_new_def Let_def check_lock_def
        SetSnapshotIfNeeded_def TrackKey_def status_simps T_def q_def)
  have "pt_inv (pe_hash env) True (t, r)" using fresh_inv [OF plm t(1,2)] .
  then have inv: "pt_inv (pe_hash env) True (t\<lparr>tracked_locks := T\<rparr>, r\<lparr>pw_plm := m, pw_calls := calls\<rparr>)"
    using PTxn_TryLock_keeps [OF _ _ _ lock, of True] t(1) by (simp add: room_for_def validated_upgrade_def)
  have op: "batch_op ops op counter (t\<lparr>tracked_locks := T\<rparr>) = (s, bump counter (t\<lparr>tracked_locks := T, write_batch := b\<rparr>))"
    using b t(5) by (simp add: batch_op_def GetBatchForWrite_def Let_def)
  have ts: "cfh_timestamp_size (case cf of None \<Rightarrow> db_DefaultColumnFamily ops | Some h \<Rightarrow> h) = 0"
    using cf(2) by (simp add: FailIfCfEnablesTs_def status_simps split: if_splits)
  have "Operate ops env cf (Slice key) False False (batch_op ops op counter) (t, r) =
      Returned (s, bump counter (t\<lparr>tracked_locks := T, write_batch := b\<rparr>), r\<lparr>pw_plm := m, pw_calls := calls\<rparr>)"
    using lock op ts by (simp add: Operate_def Let_def status_simps)
  moreover have "pt_inv (pe_hash env) True (bump counter (t\<lparr>tracked_locks := T, write_batch := b\<rparr>), r\<lparr>pw_plm := m, pw_calls := calls\<rparr>)"
    using pt_step_inv [OF step_batch inv, of ops op counter] op by simp
  moreover have "tracked_at T cf' k \<noteq> None \<longleftrightarrow> cf' = ?cf \<and> k = key" for cf' k
    unfolding T_def tracked_Track_iff by (simp add: q_def PointLockTracker_new_def tracked_at_def)
  ultimately show ?thesis using lk by blast
qed

lemma destroy_released:
  assumes "tracked_locks t = PointLockTracker_new" "txn_name t = ''''"
  shows "\<exists>r'. PTxn_destroy env (t, r) = Returned r' \<and> w_db r' = w_db r \<and> pw_plm r' = pw_plm r \<and> txn_states r' (pt_self t) = None"
  using assms by (simp add: PTxn_destroy_def PTxnDB_UnLock_def UnLock_tracker_def GetColumnFamilyIterator_def
      PointLockTracker_new_def RemoveExpirableTransaction_def Let_def)

lemma internal_write_run:
  assumes plm: "plm_ok (pe_hash env) (pw_plm r)" "calls_ok (pe_hash env) (txn_id_counter r) r"
    and c: "pw_calls r = c # calls" "lc_try_lock c"
    and env: "dbo_lock_mgr_handle (pe_options env) \<noteq> Some True" "max_num_locks (pw_plm r) \<le> 0"
    and cf: "map_of (lock_maps (pw_plm r)) (db_GetColumnFamilyID ops cf) = Some a" "ok (FailIfCfEnablesTs ops cf)"
    and free: "plm_lock (pe_hash env) (pw_plm r) (db_GetColumnFamilyID ops cf) key = None"
    and b: "wbwi_write ops without_index op (internal_batch ops wo) = (s0, b)" "ok s0"
      "wb_Count ops (wb_new ops (protection_bytes_per_key wo)) = 0" "\<not> wb_HasKeyWithTimestamp ops (wbwi_GetWriteBatch ops b)"
    and wr: "db_WriteImpl ops wo (wbwi_GetWriteBatch ops b) (plain_write 0) None (None, w_db r) = (s, l, seq, sn, d)"
  shows "\<exists>r'. internal_write ops env (t0, t1) wo self cf (Operate ops env cf (Slice key) False False (batch_op ops op counter)) r =
      Returned (s, r') \<and> w_db r' = d \<and> txn_states r' self = None \<and>
    (\<forall>cf' k. plm_lock (pe_hash env) (pw_plm r') cf' k = plm_lock (pe_hash env) (pw_plm r) cf' k)"
proof -
  define r1 where "r1 = r\<lparr>txn_id_counter := txn_id_counter r + 1, txn_states := (txn_states r)(self := Some STARTED)\<rparr>"
  obtain t where t: "BeginInternalTransaction ops env t0 wo self r = Returned (t, r1)"
    "tracked_locks t = PointLockTracker_new" "save_points t = []" "txn_name t = ''''" "log_number t = 0"
    "snapshot t = None" "\<not> snapshot_needed t" "skip_prepare t" "\<not> skip_concurrency_control t" "write_options t = wo"
    "commit_time_batch t = wb_new ops (protection_bytes_per_key wo)" "write_batch t = internal_batch ops wo"
    "pt_self t = self" "txn_id (pt_lock t) = txn_id_counter r" "lt_expiration_time (pt_lock t) = 0"
    unfolding r1_def by (rule internal_new [OF env(1)])
  let ?cf = "db_GetColumnFamilyID ops cf" and ?h = "pe_hash env" and ?id = "txn_id_counter r"
  have r1: "pw_plm r1 = pw_plm r" "pw_calls r1 = pw_calls r" "w_db r1 = w_db r" "txn_states r1 self = Some STARTED"
    by (simp_all add: r1_def)
  have calls: "calls_ok ?h (txn_id (pt_lock (t\<lparr>indexing_enabled := False\<rparr>))) r1"
    using plm(2) t(14) r1(2) by (simp add: calls_ok_def)
  obtain T m where run: "Operate ops env cf (Slice key) False False (batch_op ops op counter) (t\<lparr>indexing_enabled := False\<rparr>, r1) =
      Returned (s0, bump counter (t\<lparr>indexing_enabled := False, tracked_locks := T, write_batch := b\<rparr>),
        r1\<lparr>pw_plm := m, pw_calls := calls\<rparr>)"
    and inv: "pt_inv ?h True (bump counter (t\<lparr>indexing_enabled := False, tracked_locks := T, write_batch := b\<rparr>),
        r1\<lparr>pw_plm := m, pw_calls := calls\<rparr>)"
    and T: "\<forall>cf' k. (tracked_at T cf' k \<noteq> None \<longleftrightarrow> cf' = ?cf \<and> k = key) \<and> plm_lock ?h m cf' k =
         (if cf' = ?cf \<and> k = key then Some (LockInfo_new ?id 0 True) else plm_lock ?h (pw_plm r) cf' k)"
    using Operate_free [of env r1 "t\<lparr>indexing_enabled := False\<rparr>" c calls ops cf a key op s0 b counter]
      plm(1) calls c cf free env(2) t b(1,2) r1 by auto
  define u where "u = bump counter (t\<lparr>indexing_enabled := False, tracked_locks := T, write_batch := b\<rparr>)"
  define r2 where "r2 = r1\<lparr>pw_plm := m, pw_calls := calls\<rparr>"
  have u: "pt_self u = self" "txn_name u = ''''" "log_number u = 0" "snapshot u = None" "\<not> snapshot_needed u" "skip_prepare u"
    "write_options u = wo" "commit_time_batch u = wb_new ops (protection_bytes_per_key wo)" "write_batch u = b"
    "pt_lock u = pt_lock t" "tracked_locks u = T" "w_db r2 = w_db r" "has_state STARTED (u, r2)" "\<not> PTxn_IsExpired t1 u"
    using t r1 by (cases counter; simp add: u_def r2_def has_state_def PTxn_IsExpired_def)+
  obtain w' where commit: "PTxn_Commit ops env (WriteCommitted ops) t1 (u, r2) = Returned (s, w')" "w_db (snd w') = d"
    "released ?h (u, r2) w'" "txn_name (fst w') = ''''" "pt_self (fst w') = self"
    using commit_unprepared_run [OF inv [folded u_def r2_def] u(13,14), of ops s l seq sn d] u b(3,4) wr by auto
  have rel: "tracked_locks (fst w') = PointLockTracker_new" "\<forall>cf' k. plm_lock ?h (pw_plm (snd w')) cf' k = plm_lock ?h (pw_plm r) cf' k"
    using commit(3) T free u(10,11) t(14) r2_def
    by (auto simp: released_def split_beta release_opt_def release_def LockInfo_new_def)
  obtain r' where "PTxn_destroy env w' = Returned r'" "w_db r' = d" "pw_plm r' = pw_plm (snd w')" "txn_states r' self = None"
    using destroy_released [OF rel(1) commit(4), of env "snd w'"] commit(2,5) by auto
  then show ?thesis using t(1) run commit(1) b(2) cf(2) rel(2)
    by (simp add: internal_write_def DisableIndexing_def u_def r2_def Let_def)
qed



section \<open>Recovery\<close>

text \<open>Writes of a transaction that skips concurrency control touch nothing but its batch.\<close>

definition same_txn :: "('b, 'c) PTxn \<Rightarrow> ('b, 'c) PTxn \<Rightarrow> bool" where
  "same_txn t t' \<longleftrightarrow> txn_name t' = txn_name t \<and> pt_self t' = pt_self t \<and> log_number t' = log_number t \<and>
     skip_concurrency_control t' = skip_concurrency_control t"

lemma Operate_skip:
  assumes "skip_concurrency_control t"
  shows "\<exists>s t'. Operate ops env cf key v a (batch_op ops op counter) (t, r) = Returned (s, t', r) \<and> same_txn t t'"
proof -
  define u where "u = (if cfh_timestamp_size (case cf of Some h \<Rightarrow> h | None \<Rightarrow> db_DefaultColumnFamily ops) > 0 \<and> \<not> indexing_enabled t
    then t\<lparr>cfs_with_ts_tracked_when_indexing_disabled := List.insert
      (cfh_id (case cf of Some h \<Rightarrow> h | None \<Rightarrow> db_DefaultColumnFamily ops)) (cfs_with_ts_tracked_when_indexing_disabled t)\<rparr> else t)"
  obtain s t' where op: "batch_op ops op counter u = (s, t')" by force
  have "same_txn t u" by (simp add: same_txn_def u_def)
  moreover have "same_txn u t'" using op by (cases counter) (auto simp: same_txn_def batch_op_def Let_def split: prod.splits if_splits)
  ultimately have "same_txn t t'" by (simp add: same_txn_def)
  then show ?thesis using assms op by (auto simp: Operate_def PTxn_TryLock_def Let_def status_simps u_def)
qed

lemma builder_skip:
  assumes "skip_concurrency_control t"
  shows "\<exists>s t'. IndexedWriteBatchBuilder h (WriteCommitted_writes ops env) e (t, r) = Returned (s, t', r) \<and> same_txn t t'"
  using Operate_skip [OF assms]
  by (cases e) (simp_all add: WriteCommitted_writes_def WCTxn_Put_def WCTxn_Delete_def WCTxn_SingleDelete_def WCTxn_Merge_def same_txn_def)

lemma replay_skip:
  assumes "skip_concurrency_control t"
  shows "\<exists>s t'. replay (IndexedWriteBatchBuilder h (WriteCommitted_writes ops env)) es final (t, r) = Returned (s, t', r) \<and> same_txn t t'"
  using assms
proof (induction es arbitrary: t)
  case Nil
  then show ?case by (simp add: same_txn_def)
next
  case (Cons e es)
  from builder_skip [OF Cons.prems, of h ops env e r] obtain s t' where
    1: "IndexedWriteBatchBuilder h (WriteCommitted_writes ops env) e (t, r) = Returned (s, t', r)" "same_txn t t'" by blast
  then have "skip_concurrency_control t'" using Cons.prems by (simp add: same_txn_def)
  from Cons.IH [OF this] 1 show ?case by (auto simp: same_txn_def)
qed

lemma recover_txn_run:
  "\<exists>s t r'. recover_txn ops env now self rt r = Returned (s, t, r') \<and> pw_plm r' = pw_plm r \<and> w_db r' = w_db r \<and>
    (ok s \<longrightarrow> txn_name t = rt_name rt \<and> log_number t = rt_log_number rt \<and> txn_states r' = (txn_states r)(self \<mapsto> PREPARED) \<and>
       map_of (transactions r) (rt_name rt) = None \<and> map_of (transactions r') = (map_of (transactions r))(rt_name rt \<mapsto> self))"
proof -
  let ?opts = "TransactionOptions_new\<lparr>to_skip_concurrency_control := True\<rparr>"
  obtain t r1 where new: "PTxn_new ops env now (WriteOptions_new\<lparr>sync := True\<rparr>) ?opts self r = (t, r1)" by force
  then have t: "txn_name t = ''''" "pt_self t = self" "skip_concurrency_control t" "w_db r1 = w_db r" "pw_plm r1 = pw_plm r"
    "txn_states r1 = (txn_states r)(self \<mapsto> STARTED)" "transactions r1 = transactions r"
    by (auto simp: PTxn_new_def PTxn_Initialize_def TransactionBase_new_def InitWriteBatch_def GenTxnID_def set_state_def
        TransactionOptions_new_def TransactionBase.defs PTxn.defs Let_def split: if_splits)
  define u where "u = (if dbo_write_policy (pe_options env) \<noteq> WRITE_COMMITTED
    then t\<lparr>log_number := rt_log_number rt, seq_id := rt_seq rt\<rparr> else t\<lparr>log_number := rt_log_number rt\<rparr>)"
  have u: "txn_name u = ''''" "pt_self u = self" "skip_concurrency_control u" "log_number u = rt_log_number rt"
    using t by (simp_all add: u_def)
  obtain s v r2 where name: "PTxn_SetName (rt_name rt) (u, r1) = (s, v, r2)" by (metis prod_cases3)
  have run: "recover_txn ops env now self rt r =
      (if \<not> ok s then Returned (s, v, r2)
       else bind_outcome (RebuildFromWriteBatch ops (WriteCommitted_writes ops env) (rt_batch rt) (v, r2)) (\<lambda>(s, w).
         Returned (s, set_state PREPARED w)))"
    using new name unfolding u_def by (simp add: recover_txn_def BeginTransaction_def Let_def)
  have r2: "pw_plm r2 = pw_plm r" "w_db r2 = w_db r" "txn_states r2 = txn_states r1"
    using name t(4,5) by (auto simp: PTxn_SetName_def RegisterTransaction_def split: if_splits)
  show ?thesis
  proof (cases "ok s")
    case False
    with run r2 show ?thesis by simp
  next
    case True
    then have v: "v = u\<lparr>txn_name := rt_name rt\<rparr>" "r2 = RegisterTransaction (rt_name rt) self r1" "map_of (transactions r) (rt_name rt) = None"
      using name u(2) t(7) by (auto simp: PTxn_SetName_def GetTransactionByName_def status_simps split: if_splits)
    then have "skip_concurrency_control v" using u(3) by simp
    from replay_skip [OF this] obtain s' t' where
      "RebuildFromWriteBatch ops (WriteCommitted_writes ops env) (rt_batch rt) (v, r2) = Returned (s', t', r2)" "same_txn v t'"
      by (cases "wb_Iterate ops (rt_batch rt)") (fastforce simp: RebuildFromWriteBatch_def)
    with run True r2 v u t(6,7) show ?thesis
      by (simp add: set_state_def same_txn_def RegisterTransaction_def update_conv')
  qed
qed

lemma recover_all_run:
  "\<exists>s' ts r'. recover_all ops env now new_obj rts s r = Returned (s', ts, r') \<and> pw_plm r' = pw_plm r \<and> w_db r' = w_db r \<and>
    (ok s' \<longrightarrow> map txn_name ts = map rt_name rts \<and> map log_number ts = map rt_log_number rts \<and>
       distinct (map rt_name rts) \<and> (\<forall>rt\<in>set rts. map_of (transactions r) (rt_name rt) = None) \<and>
       (\<forall>n. map_of (transactions r') n = (if n \<in> rt_name ` set rts then Some (new_obj n) else map_of (transactions r) n)) \<and>
       (\<forall>a. txn_states r' a = (if a \<in> new_obj ` rt_name ` set rts then Some PREPARED else txn_states r a)))"
proof (induction rts arbitrary: s r)
  case Nil
  then show ?case by simp
next
  case (Cons rt rts)
  from recover_txn_run [of ops env now "new_obj (rt_name rt)" rt r] obtain s1 t r1 where
    1: "recover_txn ops env now (new_obj (rt_name rt)) rt r = Returned (s1, t, r1)" "pw_plm r1 = pw_plm r" "w_db r1 = w_db r"
    "ok s1 \<longrightarrow> txn_name t = rt_name rt \<and> log_number t = rt_log_number rt \<and>
       txn_states r1 = (txn_states r)(new_obj (rt_name rt) \<mapsto> PREPARED) \<and> map_of (transactions r) (rt_name rt) = None \<and>
       map_of (transactions r1) = (map_of (transactions r))(rt_name rt \<mapsto> new_obj (rt_name rt))" by blast
  show ?case
  proof (cases "ok s1")
    case False
    with 1 show ?thesis by simp
  next
    case True
    from Cons.IH [of s1 r1] obtain s' ts r' where
      2: "recover_all ops env now new_obj rts s1 r1 = Returned (s', ts, r')" "pw_plm r' = pw_plm r1" "w_db r' = w_db r1"
      and ok: "ok s' \<Longrightarrow> map txn_name ts = map rt_name rts \<and> map log_number ts = map rt_log_number rts \<and>
       distinct (map rt_name rts) \<and> (\<forall>rt\<in>set rts. map_of (transactions r1) (rt_name rt) = None)"
       "ok s' \<Longrightarrow> map_of (transactions r') n = (if n \<in> rt_name ` set rts then Some (new_obj n) else map_of (transactions r1) n)"
       "ok s' \<Longrightarrow> txn_states r' a = (if a \<in> new_obj ` rt_name ` set rts then Some PREPARED else txn_states r1 a)" for n a
      by blast
    have run: "recover_all ops env now new_obj (rt # rts) s r = Returned (s', t # ts, r')" using 1(1) 2(1) True by simp
    have fresh: "map_of (transactions r) (rt_name x) = None \<and> rt_name x \<noteq> rt_name rt" if "ok s'" "x \<in> set rts" for x
      using ok(1) that 1(4) True by (metis fun_upd_apply option.distinct(1))
    then have "rt_name rt \<notin> rt_name ` set rts" if "ok s'" using that by (metis imageE)
    then have "map txn_name (t # ts) = map rt_name (rt # rts) \<and> map log_number (t # ts) = map rt_log_number (rt # rts) \<and>
        distinct (map rt_name (rt # rts)) \<and> (\<forall>x\<in>set (rt # rts). map_of (transactions r) (rt_name x) = None)" if "ok s'"
      using ok(1) that 1(4) True fresh by auto
    moreover have "map_of (transactions r') n =
        (if n \<in> rt_name ` set (rt # rts) then Some (new_obj n) else map_of (transactions r) n)" if "ok s'" for n
      using ok(2) [OF that, of n] 1(4) True by auto
    moreover have "txn_states r' a = (if a \<in> new_obj ` rt_name ` set (rt # rts) then Some PREPARED else txn_states r a)" if "ok s'" for a
      using ok(3) [OF that, of a] 1(4) True by auto
    ultimately show ?thesis using run 1(2,3) 2(2,3) by (intro exI [of _ s'] exI [of _ "t # ts"] exI [of _ r'] conjI impI allI) simp_all
  qed
qed

text \<open>
  C39: Recovery returns, and when it succeeds, each prepared transaction that the database found in its
  logs exists again: in the order of the logs there is one transaction with its name and its log number,
  which can be looked up by that name and is in the state PREPARED. No key is locked by recovery.
\<close>

theorem recovery_prepared:
  assumes "ok (verify_handles cfs (pe_options env) handles)" "r0 = fold PTxnDB_AddColumnFamily handles r"
    and "cf_EnableAutoCompaction cfs (map ((!) handles) indices) (w_db r0) = (s0, d)"
  shows "\<exists>s ts r'. PTxnDB_Initialize cfs ops env now new_obj indices handles r = Returned (s, ts, r') \<and> pw_plm r' = pw_plm r0 \<and>
    (ok s \<longrightarrow> map txn_name ts = map rt_name (cf_recovered_transactions cfs d) \<and>
       map log_number ts = map rt_log_number (cf_recovered_transactions cfs d) \<and>
       (\<forall>rt\<in>set (cf_recovered_transactions cfs d). GetTransactionByName (rt_name rt) r' = Some (new_obj (rt_name rt)) \<and>
          new_obj (rt_name rt) \<in> set (GetAllPreparedTransactions r')))"
proof -
  let ?rts = "cf_recovered_transactions cfs d"
  obtain s ts r1 where run: "recover_all ops env now new_obj ?rts s0 (r0\<lparr>w_db := d\<rparr>) = Returned (s, ts, r1)" "pw_plm r1 = pw_plm r0"
    and ok: "ok s \<Longrightarrow> map txn_name ts = map rt_name ?rts \<and> map log_number ts = map rt_log_number ?rts"
      "\<lbrakk>ok s; rt \<in> set ?rts\<rbrakk> \<Longrightarrow> map_of (transactions r1) (rt_name rt) = Some (new_obj (rt_name rt)) \<and>
         txn_states r1 (new_obj (rt_name rt)) = Some PREPARED" for rt
    using recover_all_run [of ops env now new_obj ?rts s0 "r0\<lparr>w_db := d\<rparr>"] by auto
  define r' where "r' = (if ok s then r1\<lparr>w_db := cf_DeleteAllRecoveredTransactions cfs (w_db r1)\<rparr> else r1)"
  have r': "transactions r' = transactions r1" "txn_states r' = txn_states r1" "pw_plm r' = pw_plm r0" using run(2) by (simp_all add: r'_def)
  have "PTxnDB_Initialize cfs ops env now new_obj indices handles r = Returned (s, ts, r')"
    using assms run(1) by (simp add: PTxnDB_Initialize_def r'_def Let_def)
  moreover have "GetTransactionByName (rt_name rt) r' = Some (new_obj (rt_name rt)) \<and>
      new_obj (rt_name rt) \<in> set (GetAllPreparedTransactions r')" if "ok s" "rt \<in> set ?rts" for rt
    using ok(2) [OF that] map_of_SomeD [of "transactions r1" "rt_name rt" "new_obj (rt_name rt)"]
    by (force simp: GetTransactionByName_def GetAllPreparedTransactions_def r' image_iff)
  ultimately show ?thesis using ok(1) r'(3) by blast
qed

text \<open>A database whose logs hold the given prepared transactions.\<close>

abbreviation demo_cf_options :: ColumnFamilyOptions where
  "demo_cf_options \<equiv> \<lparr>co_comparator_name = ''leveldb.BytewiseComparator'', co_timestamp_size = 0, co_compression = 1,
     co_max_write_buffer_size_to_maintain = 0, co_max_write_buffer_number_to_maintain = 0, co_disable_auto_compactions = False\<rparr>"

definition list_cfs :: "'c recovered_txn list \<Rightarrow> ('c, u64 \<times> batch_event list list) cf_ops" where
  "list_cfs rts = \<lparr>
     cf_Open = \<lambda>_ _ cds _ _. (OK, map (\<lambda>i. \<lparr>cfh_name = cd_name (cds ! i), cfh_id = of_nat i, cfh_timestamp_size = 0\<rparr>) [0..<length cds], 5, []),
     cf_GetDescriptor = \<lambda>h. (OK, \<lparr>cd_name = cfh_name h, cd_options = demo_cf_options\<rparr>),
     cf_EnableAutoCompaction = \<lambda>_ d. (OK, d),
     cf_recovered_transactions = \<lambda>_. rts,
     cf_DeleteAllRecoveredTransactions = id,
     cf_CreateColumnFamily = \<lambda>_ name d. (OK, Some \<lparr>cfh_name = name, cfh_id = 9, cfh_timestamp_size = 0\<rparr>, d),
     cf_CreateColumnFamilies = \<lambda>_ d. (NotSupported kNone, [], d),
     cf_CreateColumnFamilies_named = \<lambda>_ _ d. (NotSupported kNone, [], d),
     cf_DropColumnFamily = \<lambda>_ d. (OK, d),
     cf_DropColumnFamilies = \<lambda>_ d. (OK, d),
     cf_Write = \<lambda>_ _ d. (OK, d)\<rparr>"

abbreviation demo_recovered :: "batch_event list recovered_txn list" where
  "demo_recovered \<equiv> [\<lparr>rt_name = ''a'', rt_seq = 3, rt_log_number = 7, rt_batch = [PutCF 0 ''k'' ''v'']\<rparr>,
     \<lparr>rt_name = ''b'', rt_seq = 4, rt_log_number = 8, rt_batch = [DeleteCF 0 ''l'']\<rparr>]"

abbreviation demo_objs :: "string \<Rightarrow> nat" where
  "demo_objs \<equiv> (\<lambda>name. if name = ''a'' then 1 else 2)"

theorem recovery_prepared_witness:
  "\<exists>s ts r'. PTxnDB_Initialize (list_cfs demo_recovered) list_db demo_env 1 demo_objs [] [db_DefaultColumnFamily list_db] demo_pworld =
      Returned (s, ts, r') \<and> ok s \<and> map txn_name ts = [''a'', ''b''] \<and> GetTransactionByName ''b'' r' = Some 2"
proof -
  let ?hs = "[db_DefaultColumnFamily list_db]" and ?cfs = "list_cfs demo_recovered"
  have 1: "ok (verify_handles ?cfs (pe_options demo_env) ?hs)" by code_simp
  have 2: "cf_EnableAutoCompaction ?cfs (map ((!) ?hs) []) (w_db (fold PTxnDB_AddColumnFamily ?hs demo_pworld)) = (OK, 5, [])"
    "cf_recovered_transactions ?cfs (5, []) = demo_recovered"
    by (simp_all add: list_cfs_def PTxnDB_AddColumnFamily_def)
  have "returns (PTxnDB_Initialize ?cfs list_db demo_env 1 demo_objs [] ?hs demo_pworld) (\<lambda>(s, ts, r'). ok s)" by code_simp
  then obtain s ts r' where "PTxnDB_Initialize ?cfs list_db demo_env 1 demo_objs [] ?hs demo_pworld = Returned (s, ts, r')" "ok s"
    unfolding returns_iff by auto
  with recovery_prepared [OF 1 refl 2(1), of list_db 1 demo_objs] show ?thesis by (auto simp: 2(2))
qed

end
