(* ===== verification/Autorocks.thy ===== *)
theory Autorocks
  imports Txn_DB
begin

text \<open>
  The wrapper that the Rust bindings call (\<^verbatim>\<open>autorocks-sys/src/db.h\<close>): the options with their column
  families, a transaction database with the handles of its column families, a transaction.

  A column family is addressed by its index; the last one is the default column family. An entry of the
  vector of handles is null, a handle, or a pointer to a handle that was destroyed, whose use is
  undefined.
\<close>

section \<open>Options\<close>

definition ColumnFamilyOptions_new :: "bool \<Rightarrow> ColumnFamilyOptions" where
  "ColumnFamilyOptions_new snappy =
     \<lparr>co_comparator_name = ''leveldb.BytewiseComparator'', co_timestamp_size = 0, co_compression = (if snappy then 1 else 0),
      co_max_write_buffer_size_to_maintain = 0, co_max_write_buffer_number_to_maintain = 0, co_disable_auto_compactions = False\<rparr>"

definition DBOptions_new :: DBOptions where
  "DBOptions_new = \<lparr>do_create_if_missing = False, do_create_missing_column_families = False, do_unordered_write = False,
     do_two_write_queues = False, do_allow_2pc = False\<rparr>"

definition ColumnFamilyDescriptor_new :: "bool \<Rightarrow> ColumnFamilyDescriptor" where
  "ColumnFamilyDescriptor_new snappy = \<lparr>cd_name = ''default'', cd_options = ColumnFamilyOptions_new snappy\<rparr>"

definition new_column_family_descriptor_vec :: "bool \<Rightarrow> nat \<Rightarrow> ColumnFamilyDescriptor list" where
  "new_column_family_descriptor_vec snappy len =
     map (\<lambda>i. \<lparr>cd_name = decimal i, cd_options = ColumnFamilyOptions_new snappy\<rparr>) [0..<len] @
     [\<lparr>cd_name = ''default'', cd_options = ColumnFamilyOptions_new snappy\<rparr>]"

record DbOptionsWrapper =
  path :: string
  db_options :: DBOptions
  cf_descriptors :: "ColumnFamilyDescriptor list"

definition DbOptionsWrapper_new :: "bool \<Rightarrow> string \<Rightarrow> nat \<Rightarrow> DbOptionsWrapper" where
  "DbOptionsWrapper_new snappy p columns =
     \<lparr>path = p, db_options = DBOptions_new, cf_descriptors = new_column_family_descriptor_vec snappy columns\<rparr>"

definition set_create_if_missing :: "bool \<Rightarrow> DbOptionsWrapper \<Rightarrow> DbOptionsWrapper" where
  "set_create_if_missing val w = w\<lparr>db_options := (db_options w)\<lparr>do_create_if_missing := val\<rparr>\<rparr>"

definition set_create_missing_column_families :: "bool \<Rightarrow> DbOptionsWrapper \<Rightarrow> DbOptionsWrapper" where
  "set_create_missing_column_families val w =
     w\<lparr>db_options := (db_options w)\<lparr>do_create_missing_column_families := val\<rparr>\<rparr>"

definition set_compression :: "nat \<Rightarrow> DbOptionsWrapper \<Rightarrow> DbOptionsWrapper" where
  "set_compression c w =
     w\<lparr>cf_descriptors := map (\<lambda>x. x\<lparr>cd_options := (cd_options x)\<lparr>co_compression := c\<rparr>\<rparr>) (cf_descriptors w)\<rparr>"

text \<open>Emplacing into an unordered map keeps an entry that is there.\<close>

definition emplace_descriptor ::
  "ColumnFamilyDescriptor \<Rightarrow> (string \<times> ColumnFamilyDescriptor) list \<Rightarrow> (string \<times> ColumnFamilyDescriptor) list" where
  "emplace_descriptor desc m = (if map_of m (cd_name desc) = None then AList.update (cd_name desc) desc m else m)"

definition sort_and_complete_missing ::
  "bool \<Rightarrow> nat \<Rightarrow> ColumnFamilyDescriptor list \<Rightarrow> ColumnFamilyDescriptor list" where
  "sort_and_complete_missing snappy columns descs =
     (let cf_map = fold emplace_descriptor descs [];
          default_cf = (case map_of cf_map ''default'' of Some d \<Rightarrow> d | None \<Rightarrow> ColumnFamilyDescriptor_new snappy);
          cf_map = AList.delete ''default'' cf_map
      in map (\<lambda>i. case map_of cf_map (decimal i) of
                    Some d \<Rightarrow> d
                  | None \<Rightarrow> \<lparr>cd_name = decimal i, cd_options = cd_options default_cf\<rparr>) [0..<columns] @ [default_cf])"

text \<open>
  \<open>load_file\<close> is \<^verbatim>\<open>LoadOptionsFromFile\<close>, which answers a status and what it makes of the options and
  descriptors passed to it.
\<close>

definition load ::
  "(string \<Rightarrow> DBOptions \<times> ColumnFamilyDescriptor list \<Rightarrow> Status \<times> DBOptions \<times> ColumnFamilyDescriptor list) \<Rightarrow> bool \<Rightarrow>
   string \<Rightarrow> DbOptionsWrapper \<Rightarrow> Status \<times> DbOptionsWrapper" where
  "load load_file snappy options_file w =
     (let columns = length (cf_descriptors w);
          (status, opts, descs) = load_file options_file (db_options w, cf_descriptors w);
          w = w\<lparr>db_options := opts, cf_descriptors := descs\<rparr>
      in if \<not> ok status then (status, w)
         else (status, w\<lparr>cf_descriptors := sort_and_complete_missing snappy columns (cf_descriptors w)\<rparr>))"

definition get_cf_option :: "nat \<Rightarrow> DbOptionsWrapper \<Rightarrow> ColumnFamilyOptions outcome" where
  "get_cf_option index w =
     (if index < length (cf_descriptors w) then Returned (cd_options (cf_descriptors w ! index)) else Undefined)"

section \<open>The database\<close>

datatype handle_slot = Null | Handle ColumnFamilyHandle | Dangling

text \<open>
  \<open>twdb\<close> is \<^const>\<open>None\<close> before the database is open. An open that fails after the database below was opened
  destroys the handles, but leaves the pointers in the vector.
\<close>

record 'd TransactionDBWrapper =
  twdb :: "'d pworld option"
  cf_handles :: "handle_slot list"

definition wrapper_open ::
  "('c, 'd) cf_ops \<Rightarrow> ('b, 'c, 'd) db_ops \<Rightarrow> plm_env \<Rightarrow> u64 \<Rightarrow> (string \<Rightarrow> nat) \<Rightarrow> DbOptionsWrapper \<Rightarrow> 'd pworld \<Rightarrow>
   'd TransactionDBWrapper \<Rightarrow> (Status \<times> 'd TransactionDBWrapper) outcome" where
  "wrapper_open cfs ops env now new_obj options process w =
     bind_outcome (TransactionDB_Open cfs ops env now new_obj (db_options options) (path options) (cf_descriptors options) process)
       (\<lambda>(status, handles, db).
         case db of
           Some (_, r) \<Rightarrow> Returned (status, w\<lparr>cf_handles := map Handle handles, twdb := Some r\<rparr>)
         | None \<Rightarrow> Returned (status, w\<lparr>cf_handles := map (\<lambda>_. Dangling) handles\<rparr>))"

text \<open>
  What the wrapper asks of the database beside the operations modelled: the options of a column family,
  the status of destroying a handle, and whether a column family creation that fails writes null to the
  place for the handle.
\<close>

record 'd handle_ops =
  ho_GetOptions :: "ColumnFamilyHandle \<Rightarrow> 'd \<Rightarrow> ColumnFamilyOptions"
  ho_DestroyColumnFamilyHandle :: "ColumnFamilyHandle option \<Rightarrow> Status"
  ho_null_on_failure :: bool

definition wrapper_destroy :: "'d TransactionDBWrapper \<Rightarrow> unit outcome" where
  "wrapper_destroy w =
     (if cf_handles w \<noteq> [] \<and> (twdb w = None \<or> Dangling \<in> set (cf_handles w)) then Undefined else Returned ())"

definition get_cf :: "nat \<Rightarrow> 'd TransactionDBWrapper \<Rightarrow> handle_slot" where
  "get_cf cf w = (if cf \<ge> length (cf_handles w) then Null else cf_handles w ! cf)"

definition default_col :: "'d TransactionDBWrapper \<Rightarrow> u64" where
  "default_col w = of_nat (length (cf_handles w)) - 1"

text \<open>The map of options that \<^verbatim>\<open>set_options\<close> and \<^verbatim>\<open>set_db_options\<close> pass on: the last value given for a key counts.\<close>

definition options_map :: "(string \<times> string) list \<Rightarrow> (string \<times> string) list" where
  "options_map kvs = fold (\<lambda>(k, v). AList.update k v) kvs []"

text \<open>The calls through the handle of a column; a null handle stands for the default column family.\<close>

fun with_handle :: "handle_slot \<Rightarrow> (ColumnFamilyHandle option \<Rightarrow> 'a outcome) \<Rightarrow> 'a outcome" where
  "with_handle Null f = f None"
| "with_handle (Handle h) f = f (Some h)"
| "with_handle Dangling f = Undefined"

definition clear_cf ::
  "('c, 'd) cf_ops \<Rightarrow> 'd handle_ops \<Rightarrow> plm_env \<Rightarrow> nat \<Rightarrow> 'd TransactionDBWrapper \<Rightarrow> (Status \<times> 'd TransactionDBWrapper) outcome" where
  "clear_cf cfs ho env col w =
     (case (get_cf col w, twdb w) of
        (Null, _) \<Rightarrow> Returned (OK, w)
      | (Handle h, Some r) \<Rightarrow>
          let options = ho_GetOptions ho h (w_db r);
              (status, r) = PTxnDB_DropColumnFamily cfs h r;
              w = w\<lparr>twdb := Some r\<rparr>
          in if \<not> ok status then Returned (status, w)
             else let status = ho_DestroyColumnFamilyHandle ho (Some h)
                  in if \<not> ok status then Returned (status, w)
                     else (case PTxnDB_CreateColumnFamily cfs env options (decimal col) r of
                             (status, handle, r) \<Rightarrow>
                               Returned (status, w\<lparr>twdb := Some r,
                                 cf_handles := (cf_handles w)[col :=
                                   (case handle of Some h \<Rightarrow> Handle h | None \<Rightarrow> if ho_null_on_failure ho then Null else Dangling)]\<rparr>))
      | _ \<Rightarrow> Undefined)"

definition drop_cf ::
  "('c, 'd) cf_ops \<Rightarrow> 'd handle_ops \<Rightarrow> nat \<Rightarrow> 'd TransactionDBWrapper \<Rightarrow> (Status \<times> 'd TransactionDBWrapper) outcome" where
  "drop_cf cfs ho col w =
     (case (get_cf col w, twdb w) of
        (Null, _) \<Rightarrow> Returned (OK, w)
      | (Handle h, Some r) \<Rightarrow>
          let (status, r) = PTxnDB_DropColumnFamily cfs h r;
              w = w\<lparr>twdb := Some r\<rparr>
          in if \<not> ok status then Returned (status, w)
             else let status = ho_DestroyColumnFamilyHandle ho (Some h)
                  in if \<not> ok status then Returned (status, w)
                     else Returned (status, w\<lparr>cf_handles := (cf_handles w)[col := Null]\<rparr>)
      | _ \<Rightarrow> Undefined)"

text \<open>The operations below pass a call on to the database or the transaction.\<close>

definition on_db ::
  "('d pworld \<Rightarrow> (Status \<times> 'd pworld) outcome) \<Rightarrow> 'd TransactionDBWrapper \<Rightarrow> (Status \<times> 'd TransactionDBWrapper) outcome" where
  "on_db f w =
     (case twdb w of
        None \<Rightarrow> Undefined
      | Some r \<Rightarrow> bind_outcome (f r) (\<lambda>(s, r). Returned (s, w\<lparr>twdb := Some r\<rparr>)))"

definition wrapper_put where
  "wrapper_put ops env clock self options cf key value =
     on_db (\<lambda>r. with_handle cf (\<lambda>h. PTxnDB_Put ops env clock options self h key value r))"

definition wrapper_del where
  "wrapper_del ops env clock self options cf key =
     on_db (\<lambda>r. with_handle cf (\<lambda>h. PTxnDB_Delete ops env clock options self h key r))"

definition wrapper_write where
  "wrapper_write cfs ops env clock self wopts opts updates =
     on_db (WCTxnDB_Write_optimized cfs ops env clock opts wopts self updates)"

definition wrapper_begin where
  "wrapper_begin ops env now self wo transaction_options w =
     (case twdb w of
        None \<Rightarrow> Undefined
      | Some r \<Rightarrow> BeginTransaction ops env now wo transaction_options self None r)"

definition tx_get where
  "tx_get ops options cf key w = with_handle cf (\<lambda>h. Returned (TxnBase_Get ops options h key w))"

definition tx_put where
  "tx_put ops env cf key value w = with_handle cf (\<lambda>h. WCTxn_Put ops env h (Slice key) (Slice value) False w)"

definition tx_del where
  "tx_del ops env cf key w = with_handle cf (\<lambda>h. WCTxn_Delete ops env h (Slice key) False w)"

definition tx_rollback where
  "tx_rollback ops env = PTxn_Rollback ops env (WriteCommitted ops)"

definition tx_commit where
  "tx_commit ops env = PTxn_Commit ops env (WriteCommitted ops)"

section \<open>The columns after loading options\<close>

lemma map_of_emplace:
  "map_of (fold emplace_descriptor descs m) name =
     (case map_of m name of Some d \<Rightarrow> Some d | None \<Rightarrow> find (\<lambda>d. cd_name d = name) descs)"
  by (induction descs arbitrary: m) (auto simp: emplace_descriptor_def update_conv' split: option.split)

lemma decimal_not_default: "decimal n \<noteq> ''default''"
proof
  assume eq: "decimal n = ''default''"
  have "last (decimal n) = char_of (48 + n mod 10)" by (subst decimal.simps) simp
  then have "(char_of (48 + n mod 10) :: char) = CHR ''t''" unfolding eq by simp
  then have "(of_char (char_of (48 + n mod 10) :: char) :: nat) = of_char (CHR ''t'')" by simp
  moreover have "n mod 10 < 10" by simp
  ultimately show False by (simp only: of_char_of) simp
qed

definition loaded_default :: "bool \<Rightarrow> ColumnFamilyDescriptor list \<Rightarrow> ColumnFamilyDescriptor" where
  "loaded_default snappy descs =
     (case find (\<lambda>d. cd_name d = ''default'') descs of Some d \<Rightarrow> d | None \<Rightarrow> ColumnFamilyDescriptor_new snappy)"

lemma sort_and_complete_eq:
  "sort_and_complete_missing snappy columns descs =
     map (\<lambda>i. case find (\<lambda>d. cd_name d = decimal i) descs of
                Some d \<Rightarrow> d
              | None \<Rightarrow> \<lparr>cd_name = decimal i, cd_options = cd_options (loaded_default snappy descs)\<rparr>) [0..<columns] @
     [loaded_default snappy descs]"
proof -
  have "map_of (AList.delete ''default'' m) (decimal i) = map_of m (decimal i)" for i and m :: "(string \<times> ColumnFamilyDescriptor) list"
    unfolding delete_conv' using decimal_not_default [of i] by (rule fun_upd_other)
  then show ?thesis by (simp only: sort_and_complete_missing_def Let_def map_of_emplace loaded_default_def map_of.simps option.case)
qed

lemma find_name: "find (\<lambda>d. cd_name d = n) descs = Some d \<Longrightarrow> cd_name d = n"
  by (induction descs) (auto split: if_splits)

lemma sort_and_complete_names:
  "map cd_name (sort_and_complete_missing snappy columns descs) = map decimal [0..<columns] @ [''default'']"
proof -
  have "cd_name (loaded_default snappy descs) = ''default''"
  proof (cases "find (\<lambda>d. cd_name d = ''default'') descs")
    case (Some d)
    from find_name [OF this] Some show ?thesis unfolding loaded_default_def by (simp only: option.case)
  qed (simp only: loaded_default_def option.case ColumnFamilyDescriptor_new_def ColumnFamilyDescriptor.simps)
  then show ?thesis unfolding sort_and_complete_eq by (auto dest: find_name split: option.split)
qed

lemma sort_and_complete_nth:
  assumes "i < columns"
  shows "cd_options (sort_and_complete_missing snappy columns descs ! i) =
    (case find (\<lambda>d. cd_name d = decimal i) descs of
       Some d \<Rightarrow> cd_options d | None \<Rightarrow> cd_options (loaded_default snappy descs))"
  unfolding sort_and_complete_eq using assms by (simp add: nth_append split: option.split)

text \<open>
  C40: After options for \<open>n\<close> columns are loaded from a file, whatever column families the file lists and in
  whatever order, the column families are those with the names 0 to \<open>n\<close> in this order, then the default
  one: one more than was asked for, so that the default column, the last one, moves by one. Each keeps
  the options the file gives for its name, and those the file leaves out get the options of the default
  one.
\<close>

theorem load_columns:
  assumes "load load_file snappy options_file (DbOptionsWrapper_new snappy p n) = (s, w)" "ok s"
    and "load_file options_file (DBOptions_new, new_column_family_descriptor_vec snappy n) = (s, opts, descs)"
  shows "map cd_name (cf_descriptors w) = map decimal [0..<n + 1] @ [''default''] \<and>
    (\<forall>i\<le>n. cd_options (cf_descriptors w ! i) =
       (case find (\<lambda>d. cd_name d = decimal i) descs of
          Some d \<Rightarrow> cd_options d | None \<Rightarrow> cd_options (loaded_default snappy descs)))"
proof -
  have "cf_descriptors w = sort_and_complete_missing snappy (n + 1) descs"
    using assms by (auto simp: load_def DbOptionsWrapper_new_def new_column_family_descriptor_vec_def Let_def)
  then show ?thesis using sort_and_complete_names [of snappy "n + 1" descs] sort_and_complete_nth [of _ "n + 1" snappy descs] by auto
qed

theorem load_columns_witness:
  "map cd_name (cf_descriptors (snd (load (\<lambda>_ (opts, ds). (OK, opts, rev ds)) True ''OPTIONS'' (DbOptionsWrapper_new True ''db'' 1)))) =
    [''0'', ''1'', ''default''] \<and> map cd_name (cf_descriptors (DbOptionsWrapper_new True ''db'' 1)) = [''0'', ''default'']"
proof -
  let ?f = "\<lambda>_ :: string. \<lambda>(opts :: DBOptions, ds :: ColumnFamilyDescriptor list). (OK, opts, rev ds)"
  have n: "decimal 0 = ''0''" "decimal 1 = ''1''" by code_simp+
  obtain s w where w: "load ?f True ''OPTIONS'' (DbOptionsWrapper_new True ''db'' 1) = (s, w)" by force
  then have "s = OK" by (auto simp: load_def DbOptionsWrapper_new_def Let_def split: if_splits)
  with load_columns [OF w, of DBOptions_new "rev (new_column_family_descriptor_vec True 1)"] w n show ?thesis
    by (simp add: status_simps DbOptionsWrapper_new_def new_column_family_descriptor_vec_def)
qed

section \<open>Handles\<close>

text \<open>
  Dropping and clearing columns leaves no dangling handle, if a creation that fails clears the place for
  its handle.
\<close>

lemma set_update_notin: "y \<notin> set xs \<Longrightarrow> x \<noteq> y \<Longrightarrow> y \<notin> set (xs[i := x])"
  using set_update_subset_insert [of xs i x] by auto

lemma columns_no_dangling:
  assumes "Dangling \<notin> set (cf_handles w)" "ho_null_on_failure ho"
  shows "drop_cf cfs ho col w = Returned (s, w') \<Longrightarrow> Dangling \<notin> set (cf_handles w')"
    and "clear_cf cfs ho env col w = Returned (s, w') \<Longrightarrow> Dangling \<notin> set (cf_handles w')"
  using assms set_update_notin [of Dangling "cf_handles w"]
  by (auto simp: drop_cf_def clear_cf_def Let_def split: handle_slot.splits option.splits prod.splits if_splits)

text \<open>
  When the database below opens but the transaction database cannot be initialized, the wrapper is left
  with handles and without database, and its destructor is undefined.
\<close>

lemma failed_open_destroy:
  assumes "wrapper_open cfs ops env now new_obj options process \<lparr>twdb = None, cf_handles = []\<rparr> = Returned (s, w)" "twdb w = None"
    and "TransactionDB_Open cfs ops env now new_obj (db_options options) (path options) (cf_descriptors options) process =
      Returned (s', handles, db)" "handles \<noteq> []"
  shows "wrapper_destroy w = Undefined"
  using assms by (auto simp: wrapper_open_def wrapper_destroy_def split: option.splits prod.splits)

end
