(* ===== verification/Spec2Isabelle.thy ===== *)
theory Spec2Isabelle
  imports Autorocks
begin

text \<open>
  Verification of the transaction layer of autorocks.

  \<^bold>\<open>The program.\<close> autorocks is a Rust library for a vendored RocksDB. Its Rust code calls a C++ wrapper,
  \<^verbatim>\<open>src/autorocks-sys/src/db.h\<close>, which opens a \<^verbatim>\<open>TransactionDB\<close> with one column family per column and hands
  out transactions. All writes go through the pessimistic transactions of RocksDB
  (\<^verbatim>\<open>rocksdb/utilities/transactions/\<close>): a transaction collects its writes in a batch, locks every key it
  writes (or reads for update) in a lock manager that all threads share, checks that the key was not
  written since its snapshot, and on commit gives the batch to the database and unlocks. The parts, from
  the bottom up, and the theories that model them:

  \<^item> \<open>Prelude\<close>: machine types, outcomes (\<open>Returned\<close>, \<open>Still_waiting\<close>, \<open>Undefined\<close>), lemmas on association
    lists, the model of \<^verbatim>\<open>std::unordered_map\<close>.
  \<^item> \<open>Status\<close>: \<^verbatim>\<open>include/rocksdb/status.h\<close>, \<^verbatim>\<open>util/status.cc\<close>, one definition per constructor and predicate.
  \<^item> \<open>Coding\<close>: \<^verbatim>\<open>util/coding.h\<close>, \<^verbatim>\<open>coding.cc\<close>, \<^verbatim>\<open>coding_lean.h\<close>, the encodings of numbers and strings.
  \<^item> \<open>FastRange\<close>: \<^verbatim>\<open>util/fastrange.h\<close>, which picks the stripe of a key. \<open>HashMap\<close>: \<^verbatim>\<open>util/hash_map.h\<close>, the
    table of the deadlock detector, with the contract \<open>id_map\<close> of a finite map.
  \<^item> \<open>Lock_Tracker\<close>: \<^verbatim>\<open>lock/point/point_lock_tracker.cc\<close>, the locks a transaction knows it has, with the
    contract \<open>point_tracker\<close> that save points rely on.
  \<^item> \<open>Deadlock_Buffer\<close>, \<open>Deadlock_Detect\<close>, \<open>Point_Lock_Manager\<close>, \<open>Lock_Wait\<close>: the lock manager,
    \<^verbatim>\<open>lock/point/point_lock_manager.{h,cc}\<close> and \<^verbatim>\<open>transaction_db_mutex_impl.cc\<close>; the buffer of deadlocks found,
    the waits-for graph, the striped lock table, and waiting with a timeout. \<open>Lock_Properties\<close> has the
    properties of the table.
  \<^item> \<open>Txn_Types\<close>: the options, and the record \<open>db_ops\<close> of what the layer calls in the database and its
    batches. \<open>Txn_Base\<close>: \<^verbatim>\<open>transaction_base.{h,cc}\<close>. \<open>Save_Points\<close>: its specification and refinement.
    \<open>Txn_Util\<close>: \<^verbatim>\<open>transaction_util.cc\<close>, the conflict check.
  \<^item> \<open>Pessimistic_Txn\<close>: \<^verbatim>\<open>pessimistic_transaction.{h,cc}\<close>, with \<^verbatim>\<open>WriteCommittedTxn\<close> as the instance
    \<open>WriteCommitted\<close> of the virtual methods \<open>txn_internals\<close>. \<open>Txn_Locks\<close>, \<open>Txn_Lifecycle\<close> (with the contract
    \<open>write_policy\<close> of those methods) and \<open>Lock_Batch\<close> have its properties.
  \<^item> \<open>Txn_DB\<close>: \<^verbatim>\<open>pessimistic_transaction_db.{h,cc}\<close>, opening, recovery, column families, writes outside
    transactions. \<open>Autorocks\<close>: \<^verbatim>\<open>autorocks-sys/src/db.h\<close>.

  \<^bold>\<open>How state and operations correspond.\<close> A class is a record with the fields of the source, an operation
  a function from states to states and a status. The order of the definitions is that of the source, and
  they have its names; a prefix tells apart what C++ tells apart by class (\<open>TxnBase_\<close>, \<open>PTxn_\<close>,
  \<open>WCTxn_\<close>, \<open>PTxnDB_\<close>, \<open>PLM_\<close>). Inheritance is record extension; virtual methods are arguments. What
  threads share, the lock manager, the registries and the states of the transactions by address, is in
  the world \<open>pworld\<close>. An operation under a mutex is one step. Between steps other threads act: in a wait,
  through the function of its \<open>wake\<close>, and in the step relations \<open>lm_step\<close>, \<open>wait_step\<close>, \<open>pt_step\<close>.
  Undefined behaviour of C++ is the outcome \<open>Undefined\<close> or \<^const>\<open>None\<close>. The model is that of a release build:
  an \<^verbatim>\<open>assert\<close> is no branch.

  \<^bold>\<open>What the lemmas show.\<close>
  \<^item> Lock table: the invariant of every reachable state (a locked key has a holder, an exclusively locked
    one exactly one), stability of exclusive locks, refinement of an unstriped table, transparency of the
    caches, exactness of the lock count and of the status report, the effect of unlocking a transaction.
  \<^item> Deadlock detection: the waits-for graph stays acyclic, the search answers correctly within its depth
    and restores the graph; the buffer reports the latest paths.
  \<^item> Waiting: a granted lock is held, and a call returns after finitely many waits.
  \<^item> Tracker and save points: tracking and untracking, merging and subtracting are exact, and the save
    points refine a specification that stores whole states.
  \<^item> Transactions: every tracked key is locked in the lock manager; the two-phase commit, rollback and
    expiration; a transaction that is over is inert; batches are locked in one order, and locking them
    ends.
  \<^item> Database: an uncontended write outside a transaction is one write and leaves no lock; recovery brings
    back every prepared transaction; the columns after loading options.
  \<^item> Encodings and status: round trips, sizes, the unrolled and the portable routines equal the plain ones.
  \<^item> The properties of kind error prove where the code does not do what it means to; each is a finding.

  \<^bold>\<open>Bounds.\<close> The requests for one key are counted in 32 bits: the properties of trackers and save points
  hold below \<open>2 ^ 32\<close> requests. The search for deadlocks is bounded by the depth of the transaction, as in
  the code. No fuel is used: a lock call consumes the list of its waits, and a statement that it returns
  says for which lists it does (one that times out; or a timeout of 0 and any list). A transaction has a
  list of its lock calls, one for each key to lock; a statement that it returns asks for that many.

  \<^bold>\<open>Parameters.\<close> RocksDB's directory \<^verbatim>\<open>db/\<close> is not in the repository. The database and the batches are
  the records \<open>db_ops\<close> and \<open>cf_ops\<close>; the properties that rely on an answer of the database name it as a
  hypothesis. The hash of keys, the clock and \<^verbatim>\<open>LoadOptionsFromFile\<close> are arguments. The witnesses
  instantiate them with \<open>list_db\<close> and \<open>list_cfs\<close>, a database that is the list of its batches.

  \<^bold>\<open>Not modelled.\<close> The storage engine below the transactions (\<^verbatim>\<open>table/\<close>, \<^verbatim>\<open>cache/\<close>, \<^verbatim>\<open>memtable/\<close>, \<^verbatim>\<open>file/\<close>, \<^verbatim>\<open>env/\<close>,
  \<^verbatim>\<open>options/\<close>), which is reached only through the missing \<^verbatim>\<open>db/\<close>; \<^verbatim>\<open>WriteBatchWithIndex\<close>, which is built on
  it; the write-prepared and write-unprepared policies, optimistic transactions and range locks, which
  the wrapper cannot select; the other utilities, tools, tests and the Java bindings; the Rust code, which
  passes calls on; when shared pointers free snapshots; the destructor of the transaction database, whose
  loop ends only if every transaction it deletes is still registered; iterators and the operations that
  pass a call on to the database unchanged.
\<close>

end
